theory Spec2Isabelle
  imports Complex_Main "HOL-Library.Multiset"
begin

section \<open>Python values used by the labelling script\<close>

text \<open>
  The script under verification is \<^verbatim>\<open>mark_with_ai_and_position.py\<close>.  A Python
  \<^verbatim>\<open>str\<close> is a sequence of Unicode code points, so a text is a list of code points
  (natural numbers); \<^verbatim>\<open>len\<close>, indexing and \<^verbatim>\<open>re\<close> offsets all count code points.
\<close>

type_synonym pystr = "nat list"

text \<open>Python's \<^verbatim>\<open>xs[a:b]\<close> for indices \<open>0 \<le> a\<close>, \<open>0 \<le> b\<close>: clipped at the end of the
  list, empty when \<open>b \<le> a\<close>.\<close>

definition slice :: "'a list \<Rightarrow> nat \<Rightarrow> nat \<Rightarrow> 'a list" where
  "slice xs a b = take (b - a) (drop a xs)"

text \<open>A Python \<^verbatim>\<open>float\<close> by its value: a finite one as the rational it denotes, and the
  three special values.  Only \<^verbatim>\<open>int(x)\<close> and equality with an \<^verbatim>\<open>int\<close> are applied to
  floats here, and both depend on the value alone.\<close>

datatype pyfloat = Finite rat | PosInf | NegInf | NaN

text \<open>What \<^verbatim>\<open>json.loads\<close> and \<^verbatim>\<open>Response.json()\<close> produce.  A \<^verbatim>\<open>dict\<close> is an
  association list read with \<open>map_of\<close>; \<open>JNull\<close> is \<^verbatim>\<open>None\<close>.\<close>

datatype json =
    JNull
  | JBool bool
  | JInt int
  | JFloat pyfloat
  | JStr pystr
  | JArr "json list"
  | JObj "(pystr \<times> json) list"

datatype py_error =
    TypeError
  | ValueError
  | OverflowError
  | KeyError
  | IndexError
  | AttributeError
  | JSONDecodeError
  | RequestException

text \<open>The two library functions on strings that the script calls and that are not
  modelled character by character: \<^verbatim>\<open>int(s)\<close> (\<open>None\<close> for its \<^verbatim>\<open>ValueError\<close>) and
  \<^verbatim>\<open>json.loads(s)\<close> (\<open>None\<close> for its \<^verbatim>\<open>JSONDecodeError\<close>).  Every definition that
  needs them takes them as a parameter.\<close>

record pylib =
  str_int :: "pystr \<Rightarrow> int option"
  json_loads :: "pystr \<Rightarrow> json option"

text \<open>Keys of the JSON documents: \<^verbatim>\<open>"results"\<close>, \<^verbatim>\<open>"id"\<close>, \<^verbatim>\<open>"type"\<close>,
  \<^verbatim>\<open>"choices"\<close>, \<^verbatim>\<open>"message"\<close>, \<^verbatim>\<open>"content"\<close>.\<close>

definition key_results :: pystr where
  "key_results = [114, 101, 115, 117, 108, 116, 115]"

definition key_id :: pystr where
  "key_id = [105, 100]"

definition key_type :: pystr where
  "key_type = [116, 121, 112, 101]"

definition key_choices :: pystr where
  "key_choices = [99, 104, 111, 105, 99, 101, 115]"

definition key_message :: pystr where
  "key_message = [109, 101, 115, 115, 97, 103, 101]"

definition key_content :: pystr where
  "key_content = [99, 111, 110, 116, 101, 110, 116]"

text \<open>\<^verbatim>\<open>d.get(k, default)\<close> on a dict; \<^verbatim>\<open>d.get(k)\<close> has the default \<^verbatim>\<open>None\<close>.\<close>

definition dict_get :: "(pystr \<times> json) list \<Rightarrow> pystr \<Rightarrow> json \<Rightarrow> json" where
  "dict_get d k dflt = (case map_of d k of None \<Rightarrow> dflt | Some v \<Rightarrow> v)"

text \<open>\<^verbatim>\<open>x[k]\<close> for a string key: only a dict has string keys.\<close>

fun subscr_key :: "json \<Rightarrow> pystr \<Rightarrow> py_error + json" where
  "subscr_key (JObj d) k = (case map_of d k of None \<Rightarrow> Inl KeyError | Some v \<Rightarrow> Inr v)"
| "subscr_key _ k = Inl TypeError"

text \<open>\<^verbatim>\<open>x[0]\<close>: the first element of a list, the first character of a string; a dict decoded
  from JSON has string keys only, so \<^verbatim>\<open>0\<close> is no key of it.\<close>

fun subscr_zero :: "json \<Rightarrow> py_error + json" where
  "subscr_zero (JArr []) = Inl IndexError"
| "subscr_zero (JArr (v # vs)) = Inr v"
| "subscr_zero (JStr []) = Inl IndexError"
| "subscr_zero (JStr (c # cs)) = Inr (JStr [c])"
| "subscr_zero (JObj d) = Inl KeyError"
| "subscr_zero _ = Inl TypeError"

text \<open>\<^verbatim>\<open>int(x)\<close>: a \<^verbatim>\<open>bool\<close> is an \<^verbatim>\<open>int\<close>, a finite float is truncated towards zero,
  an infinity raises \<^verbatim>\<open>OverflowError\<close>, a NaN \<^verbatim>\<open>ValueError\<close>, a string is parsed,
  anything else raises \<^verbatim>\<open>TypeError\<close>.\<close>

definition trunc_rat :: "rat \<Rightarrow> int" where
  "trunc_rat r = (if 0 \<le> r then \<lfloor>r\<rfloor> else \<lceil>r\<rceil>)"

fun py_int :: "pylib \<Rightarrow> json \<Rightarrow> py_error + int" where
  "py_int L JNull = Inl TypeError"
| "py_int L (JBool b) = Inr (if b then 1 else 0)"
| "py_int L (JInt n) = Inr n"
| "py_int L (JFloat (Finite r)) = Inr (trunc_rat r)"
| "py_int L (JFloat PosInf) = Inl OverflowError"
| "py_int L (JFloat NegInf) = Inl OverflowError"
| "py_int L (JFloat NaN) = Inl ValueError"
| "py_int L (JStr s) = (case str_int L s of None \<Rightarrow> Inl ValueError | Some n \<Rightarrow> Inr n)"
| "py_int L (JArr vs) = Inl TypeError"
| "py_int L (JObj d) = Inl TypeError"

text \<open>The integer that a hashable JSON value is equal to as a dict key, if there is one
  (\<^verbatim>\<open>1 == 1.0 == True\<close> in Python, and equal keys hash alike).\<close>

fun id_key :: "json \<Rightarrow> int option" where
  "id_key (JInt n) = Some n"
| "id_key (JBool b) = Some (if b then 1 else 0)"
| "id_key (JFloat (Finite r)) = (if r = of_int \<lfloor>r\<rfloor> then Some \<lfloor>r\<rfloor> else None)"
| "id_key _ = None"

text \<open>Computing \<^verbatim>\<open>hash(x)\<close> raises \<^verbatim>\<open>TypeError\<close> for a list and for a dict.\<close>

fun hashable :: "json \<Rightarrow> bool" where
  "hashable (JArr vs) = False"
| "hashable (JObj d) = False"
| "hashable _ = True"

section \<open>Extractor: \<^verbatim>\<open>extract_chinese_numbers\<close>\<close>

text \<open>The character class of the pattern
  \<^verbatim>\<open>[U+96F6 U+4E00 U+4E8C U+4E09 U+56DB U+4E94 U+516D U+4E03 U+516B U+4E5D U+5341 U+767E U+5343 U+4E07 U+4EBF]+\<close>
  (zero, one to ten, hundred, thousand, ten thousand, hundred million), in the order of
  the source.\<close>

definition numeral_glyphs :: "nat list" where
  "numeral_glyphs =
     [38646, 19968, 20108, 19977, 22235, 20116, 20845, 19971, 20843, 20061,
      21313, 30334, 21315, 19975, 20159]"

definition is_numeral :: "nat \<Rightarrow> bool" where
  "is_numeral c = (c \<in> set numeral_glyphs)"

text \<open>One element of the returned list: the dict
  \<^verbatim>\<open>{'text': match.group(), 'start': match.start(), 'end': match.end()}\<close>.\<close>

record num_match =
  mtext :: pystr
  mstart :: nat
  mend :: nat

text \<open>\<^verbatim>\<open>re.finditer(pattern, text)\<close> for a pattern that is one greedy character class
  repetition: at a position holding a glyph of the class the match takes the whole run of
  class glyphs and the scan resumes at the end of the match; at any other position the
  scan moves one code point on.  The first argument is the offset of the remaining text
  in the whole text.\<close>

function finditer_from :: "nat \<Rightarrow> pystr \<Rightarrow> num_match list" where
  "finditer_from i [] = []"
| "finditer_from i (c # cs) =
     (if is_numeral c
      then (let run = c # takeWhile is_numeral cs
            in \<lparr>mtext = run, mstart = i, mend = i + length run\<rparr>
               # finditer_from (i + length run) (dropWhile is_numeral cs))
      else finditer_from (Suc i) cs)"
  by pat_completeness auto
termination
  by (relation "measure (\<lambda>(i, t). length t)")
     (auto simp: length_dropWhile_le less_Suc_eq_le)

definition extract_chinese_numbers :: "pystr \<Rightarrow> num_match list" where
  "extract_chinese_numbers text = finditer_from 0 text"

section \<open>Batcher: the list comprehension of \<^verbatim>\<open>process_all\<close>\<close>

text \<open>\<^verbatim>\<open>range(0, stop, step)\<close>: \<^verbatim>\<open>ValueError\<close> (here \<open>None\<close>) for a zero step, otherwise
  the \<open>(stop + step - 1) div step\<close> multiples of the step below \<open>stop\<close>.\<close>

definition py_range_step :: "nat \<Rightarrow> nat \<Rightarrow> nat list option" where
  "py_range_step stop step =
     (if step = 0 then None
      else Some (map (\<lambda>k. k * step) [0..<(stop + step - 1) div step]))"

text \<open>\<^verbatim>\<open>[rows[i:i + BATCH_SIZE] for i in range(0, len(rows), BATCH_SIZE)]\<close>, with the
  batch size as a parameter.\<close>

definition make_batches :: "nat \<Rightarrow> 'a list \<Rightarrow> 'a list list option" where
  "make_batches n rows =
     (case py_range_step (length rows) n of
        None \<Rightarrow> None
      | Some starts \<Rightarrow> Some (map (\<lambda>i. slice rows i (i + n)) starts))"

definition BATCH_SIZE :: nat where
  "BATCH_SIZE = 20"

section \<open>Oracle client: \<^verbatim>\<open>call_gemini_json\<close>\<close>

text \<open>What the network gives to one attempt: \<^verbatim>\<open>requests.post\<close>, \<^verbatim>\<open>raise_for_status\<close>
  or \<^verbatim>\<open>r.json()\<close> raises (connection error, timeout, status outside 2xx, body that is not
  JSON), or \<^verbatim>\<open>r.json()\<close> returns the decoded body.\<close>

datatype http_outcome = HttpRaises py_error | HttpData json

text \<open>The body of the \<^verbatim>\<open>try\<close> of one attempt:
  \<^verbatim>\<open>msg = data["choices"][0]["message"]["content"]\<close>, then \<^verbatim>\<open>msg\<close> itself when it is
  a dict and \<^verbatim>\<open>json.loads(msg)\<close> otherwise (\<^verbatim>\<open>TypeError\<close> when \<^verbatim>\<open>msg\<close> is no string).
  \<open>Inl\<close> is the exception that the \<^verbatim>\<open>except\<close> clause catches.\<close>

definition attempt_body :: "pylib \<Rightarrow> http_outcome \<Rightarrow> py_error + json" where
  "attempt_body L h =
     (case h of
        HttpRaises e \<Rightarrow> Inl e
      | HttpData data \<Rightarrow>
          (case subscr_key data key_choices of
             Inl e \<Rightarrow> Inl e
           | Inr cs \<Rightarrow>
               (case subscr_zero cs of
                  Inl e \<Rightarrow> Inl e
                | Inr c \<Rightarrow>
                    (case subscr_key c key_message of
                       Inl e \<Rightarrow> Inl e
                     | Inr m \<Rightarrow>
                         (case subscr_key m key_content of
                            Inl e \<Rightarrow> Inl e
                          | Inr msg \<Rightarrow>
                              (case msg of
                                 JObj d \<Rightarrow> Inr msg
                               | JStr s \<Rightarrow>
                                   (case json_loads L s of
                                      None \<Rightarrow> Inl JSONDecodeError
                                    | Some v \<Rightarrow> Inr v)
                               | _ \<Rightarrow> Inl TypeError))))))"

text \<open>The loop \<^verbatim>\<open>for i in range(retry)\<close> over the attempt indices still to run, with the
  variable \<^verbatim>\<open>last_err\<close> and, as a ghost counter, the number of requests posted so far.
  The network is a function from the attempt index to what that attempt receives.  After
  the loop \<^verbatim>\<open>raise last_err\<close> raises the last exception, and \<^verbatim>\<open>TypeError\<close> when
  \<^verbatim>\<open>last_err\<close> is still \<^verbatim>\<open>None\<close>.  Logging and \<^verbatim>\<open>time.sleep\<close> are not modelled.\<close>

fun attempts_loop ::
  "pylib \<Rightarrow> (nat \<Rightarrow> http_outcome) \<Rightarrow> nat list \<Rightarrow> py_error option \<Rightarrow> nat
     \<Rightarrow> (py_error + json) \<times> nat" where
  "attempts_loop L net [] last_err calls =
     (case last_err of None \<Rightarrow> (Inl TypeError, calls) | Some e \<Rightarrow> (Inl e, calls))"
| "attempts_loop L net (i # rest) last_err calls =
     (case attempt_body L (net i) of
        Inr v \<Rightarrow> (Inr v, Suc calls)
      | Inl e \<Rightarrow> attempts_loop L net rest (Some e) (Suc calls))"

definition call_gemini_json ::
  "pylib \<Rightarrow> (nat \<Rightarrow> http_outcome) \<Rightarrow> nat \<Rightarrow> (py_error + json) \<times> nat" where
  "call_gemini_json L net retry = attempts_loop L net [0..<retry] None 0"

definition MODEL_RETRIES :: nat where
  "MODEL_RETRIES = 2"

section \<open>Token store\<close>

text \<open>A row of \<^verbatim>\<open>number_level_analysis\<close> (\<^verbatim>\<open>created_at\<close> is never read) and a row of
  \<^verbatim>\<open>new_num_sentences\<close>.  \<open>number_type = None\<close> is SQL \<^verbatim>\<open>NULL\<close>.\<close>

record occ_row =
  row_id :: int
  source_id :: int
  sentence :: pystr
  number_text :: pystr
  number_start :: int
  number_end :: int
  number_type :: "int option"

record src_row =
  src_id :: int
  content :: pystr

text \<open>The committed state of the database: the two tables, rows in insertion order, and
  the next value of the \<^verbatim>\<open>BIGSERIAL\<close> sequence of \<^verbatim>\<open>number_level_analysis.id\<close>.
  \<^verbatim>\<open>ensure_new_table\<close> creates the occurrence table when it is absent, so an absent
  table is an empty \<open>analysis\<close>.  Errors of the database itself are not modelled.\<close>

record store =
  sentences :: "src_row list"
  analysis :: "occ_row list"
  next_id :: int

text \<open>\<^verbatim>\<open>INSERT INTO number_level_analysis (source_id, sentence, number_text, number_start,
  number_end) VALUES (...)\<close>: the id comes from the sequence, \<^verbatim>\<open>number_type\<close> defaults
  to \<^verbatim>\<open>NULL\<close>.\<close>

definition insert_number :: "int \<Rightarrow> pystr \<Rightarrow> num_match \<Rightarrow> store \<Rightarrow> store" where
  "insert_number sid stext m st =
     st\<lparr>analysis := analysis st @
            [\<lparr>row_id = next_id st, source_id = sid, sentence = stext,
              number_text = mtext m, number_start = int (mstart m),
              number_end = int (mend m), number_type = None\<rparr>],
        next_id := next_id st + 1\<rparr>"

text \<open>\<^verbatim>\<open>UPDATE number_level_analysis SET number_type = v WHERE id = k\<close>.\<close>

definition update_type :: "int \<Rightarrow> int \<Rightarrow> store \<Rightarrow> store" where
  "update_type k v st =
     st\<lparr>analysis :=
          map (\<lambda>r. if row_id r = k then r\<lparr>number_type := Some v\<rparr> else r) (analysis st)\<rparr>"

text \<open>The code point U+7B2C of the ordinal prefix, and the condition
  \<^verbatim>\<open>content NOT LIKE '%<U+7B2C>%'\<close>.\<close>

definition DI :: nat where
  "DI = 31532"

definition not_like_di :: "pystr \<Rightarrow> bool" where
  "not_like_di s = (DI \<notin> set s)"

text \<open>\<^verbatim>\<open>extract_and_insert_numbers\<close>: the sentences without U+7B2C, in table order (the
  query has no \<^verbatim>\<open>ORDER BY\<close>), and for each of them one insert per extracted numeral.\<close>

definition insert_sentence :: "src_row \<Rightarrow> store \<Rightarrow> store" where
  "insert_sentence row st =
     fold (insert_number (src_id row) (content row))
          (extract_chinese_numbers (content row)) st"

definition extract_and_insert_numbers :: "store \<Rightarrow> store" where
  "extract_and_insert_numbers st =
     fold insert_sentence (filter (\<lambda>row. not_like_di (content row)) (sentences st)) st"

text \<open>Step 2 of \<^verbatim>\<open>process_all\<close>: the row count of the occurrence table and the test
  \<^verbatim>\<open>count == 0\<close>.\<close>

definition extraction_step :: "store \<Rightarrow> store" where
  "extraction_step st =
     (if length (analysis st) = 0 then extract_and_insert_numbers st else st)"

text \<open>\<^verbatim>\<open>fetch_rows_to_label\<close>: \<^verbatim>\<open>WHERE number_type IS NULL ORDER BY id\<close>.\<close>

definition fetch_rows_to_label :: "store \<Rightarrow> occ_row list" where
  "fetch_rows_to_label st =
     sort_key row_id (filter (\<lambda>r. number_type r = None) (analysis st))"

section \<open>Worker task and reconciliation\<close>

text \<open>\<^verbatim>\<open>process_batch_api_task\<close>: the prompt is a function of the batch and only the
  remote service reads it, so the network is indexed by the batch.  Any exception of the
  call gives \<^verbatim>\<open>(batch_rows, None)\<close>.\<close>

definition process_batch_api_task ::
  "pylib \<Rightarrow> (occ_row list \<Rightarrow> nat \<Rightarrow> http_outcome) \<Rightarrow> occ_row list
     \<Rightarrow> occ_row list \<times> json" where
  "process_batch_api_task L net batch_rows =
     (case fst (call_gemini_json L (net batch_rows) MODEL_RETRIES) of
        Inl e \<Rightarrow> (batch_rows, JNull)
      | Inr result \<Rightarrow> (batch_rows, result))"

text \<open>The two loops \<^verbatim>\<open>for r in batch_rows: UPDATE ... SET number_type=-1 WHERE id=r["id"]\<close>.\<close>

definition mark_failed :: "occ_row list \<Rightarrow> store \<Rightarrow> store" where
  "mark_failed batch_rows st = fold (\<lambda>r. update_type (row_id r) (- 1)) batch_rows st"

text \<open>\<^verbatim>\<open>int(item.get("type"))\<close> under its \<^verbatim>\<open>try\<close>, with the test
  \<^verbatim>\<open>num_type not in (0, 1, 2)\<close>.\<close>

definition decode_type :: "pylib \<Rightarrow> (pystr \<times> json) list \<Rightarrow> int" where
  "decode_type L d =
     (case py_int L (dict_get d key_type JNull) of
        Inl e \<Rightarrow> - 1
      | Inr n \<Rightarrow> if n = 0 \<or> n = 1 \<or> n = 2 then n else - 1)"

text \<open>One round of \<^verbatim>\<open>for item in results\<close>, given the keys of \<^verbatim>\<open>id_map\<close>.
  \<^verbatim>\<open>item.get\<close> raises \<^verbatim>\<open>AttributeError\<close> when the item is no dict, and
  \<^verbatim>\<open>rid in id_map\<close> raises \<^verbatim>\<open>TypeError\<close> when \<^verbatim>\<open>rid\<close> is not hashable.
  Assumption on the store: the \<^verbatim>\<open>UPDATE\<close> reaches the rows whose id is the key of
  \<^verbatim>\<open>id_map\<close> that \<^verbatim>\<open>rid\<close> is equal to; for an integer \<^verbatim>\<open>rid\<close> this is the SQL
  comparison \<^verbatim>\<open>id = rid\<close>, and how the database driver passes a boolean or a float
  \<^verbatim>\<open>rid\<close> is outside the script.\<close>

definition apply_item :: "pylib \<Rightarrow> int list \<Rightarrow> json \<Rightarrow> store \<Rightarrow> py_error + store" where
  "apply_item L ids item st =
     (case item of
        JObj d \<Rightarrow>
          (let rid = dict_get d key_id JNull;
               num_type = decode_type L d
           in if \<not> hashable rid then Inl TypeError
              else (case id_key rid of
                      None \<Rightarrow> Inr st
                    | Some k \<Rightarrow> if k \<in> set ids then Inr (update_type k num_type st)
                                else Inr st))
      | _ \<Rightarrow> Inl AttributeError)"

fun apply_items :: "pylib \<Rightarrow> int list \<Rightarrow> json list \<Rightarrow> store \<Rightarrow> py_error + store" where
  "apply_items L ids [] st = Inr st"
| "apply_items L ids (item # rest) st =
     (case apply_item L ids item st of
        Inl e \<Rightarrow> Inl e
      | Inr st' \<Rightarrow> apply_items L ids rest st')"

text \<open>The body of \<^verbatim>\<open>for fut in as_completed(futures)\<close> for one completed batch, up to its
  \<^verbatim>\<open>conn.commit()\<close>: \<open>Inr\<close> is the committed store, \<open>Inl\<close> the exception that leaves the
  loop (the updates of the batch are then rolled back by the handler of
  \<^verbatim>\<open>process_all\<close>).\<close>

definition reconcile_batch :: "pylib \<Rightarrow> occ_row list \<times> json \<Rightarrow> store \<Rightarrow> py_error + store" where
  "reconcile_batch L outcome st =
     (case outcome of (batch_rows, api_result) \<Rightarrow>
        (case api_result of
           JNull \<Rightarrow> Inr (mark_failed batch_rows st)
         | JObj d \<Rightarrow>
             (case dict_get d key_results (JArr []) of
                JArr results \<Rightarrow> apply_items L (map row_id batch_rows) results st
              | _ \<Rightarrow> Inr (mark_failed batch_rows st))
         | _ \<Rightarrow> Inl AttributeError))"

text \<open>The loop over the completed futures: the committed store and, if an exception ended
  the loop, that exception.\<close>

fun reconcile_all ::
  "pylib \<Rightarrow> (occ_row list \<times> json) list \<Rightarrow> store \<Rightarrow> store \<times> py_error option" where
  "reconcile_all L [] st = (st, None)"
| "reconcile_all L (outcome # rest) st =
     (case reconcile_batch L outcome st of
        Inl e \<Rightarrow> (st, Some e)
      | Inr st' \<Rightarrow> reconcile_all L rest st')"

section \<open>Main flow: \<^verbatim>\<open>process_all\<close>\<close>

text \<open>Steps 3 and 4: fetch, batch, run the worker task on every batch, reconcile the
  results in completion order.  The order in which \<^verbatim>\<open>as_completed\<close> yields the futures is
  the parameter \<open>sched\<close>, which rearranges the list of results; the theorems that depend
  on it assume that it permutes the list.  The result is the committed store and the
  exception, if any, that the handler of \<^verbatim>\<open>process_all\<close> caught (it rolls back the
  batch in progress).  The statistics of step 5 only read the store and are not
  modelled.\<close>

definition labelling_run ::
  "pylib \<Rightarrow> (occ_row list \<Rightarrow> nat \<Rightarrow> http_outcome)
     \<Rightarrow> ((occ_row list \<times> json) list \<Rightarrow> (occ_row list \<times> json) list)
     \<Rightarrow> store \<Rightarrow> store \<times> py_error option" where
  "labelling_run L net sched st =
     (let rows = fetch_rows_to_label st
      in if rows = [] then (st, None)
         else (case make_batches BATCH_SIZE rows of
                 None \<Rightarrow> (st, Some ValueError)
               | Some batches \<Rightarrow>
                   reconcile_all L (sched (map (process_batch_api_task L net) batches)) st))"

definition process_all ::
  "pylib \<Rightarrow> (occ_row list \<Rightarrow> nat \<Rightarrow> http_outcome)
     \<Rightarrow> ((occ_row list \<times> json) list \<Rightarrow> (occ_row list \<times> json) list)
     \<Rightarrow> store \<Rightarrow> store \<times> py_error option" where
  "process_all L net sched st = labelling_run L net sched (extraction_step st)"

section \<open>Closed forms of the reconciliation\<close>

text \<open>These definitions are not functions of the script: they describe, row by row, what
  the loops above compute, and the lemmas below prove that they do.

  \<open>entry_ok\<close>: a result entry on which the loop body raises no exception (a dict whose
  \<^verbatim>\<open>"id"\<close> is hashable).  \<open>label_for L k items\<close>: the label written last for id \<open>k\<close>, that
  is the decoded type of the last entry of \<open>items\<close> whose id is equal to \<open>k\<close>, and \<open>None\<close>
  when no entry has that id.  \<open>batch_label\<close>: the label that reconciling a batch result
  gives to an id of the batch (\<open>None\<close>: the row is left as it is).  \<open>batch_ok\<close>: the result
  is reconciled without an exception.  \<open>relabel\<close> and \<open>items_relabel\<close>: the effect on one
  row.\<close>

definition entry_ok :: "json \<Rightarrow> bool" where
  "entry_ok item = (case item of JObj d \<Rightarrow> hashable (dict_get d key_id JNull) | _ \<Rightarrow> False)"

fun label_for :: "pylib \<Rightarrow> int \<Rightarrow> json list \<Rightarrow> int option" where
  "label_for L k [] = None"
| "label_for L k (item # rest) =
     (case label_for L k rest of
        Some t \<Rightarrow> Some t
      | None \<Rightarrow>
          (case item of
             JObj d \<Rightarrow> if id_key (dict_get d key_id JNull) = Some k
                       then Some (decode_type L d) else None
           | _ \<Rightarrow> None))"

definition batch_label :: "pylib \<Rightarrow> json \<Rightarrow> int \<Rightarrow> int option" where
  "batch_label L res k =
     (case res of
        JNull \<Rightarrow> Some (- 1)
      | JObj d \<Rightarrow>
          (case dict_get d key_results (JArr []) of
             JArr items \<Rightarrow> label_for L k items
           | _ \<Rightarrow> Some (- 1))
      | _ \<Rightarrow> None)"

definition batch_ok :: "json \<Rightarrow> bool" where
  "batch_ok res =
     (case res of
        JNull \<Rightarrow> True
      | JObj d \<Rightarrow>
          (case dict_get d key_results (JArr []) of
             JArr items \<Rightarrow> list_all entry_ok items
           | _ \<Rightarrow> True)
      | _ \<Rightarrow> False)"

definition relabel :: "pylib \<Rightarrow> occ_row list \<times> json \<Rightarrow> occ_row \<Rightarrow> occ_row" where
  "relabel L outcome r =
     (if row_id r \<in> row_id ` set (fst outcome)
      then (case batch_label L (snd outcome) (row_id r) of
              None \<Rightarrow> r
            | Some t \<Rightarrow> r\<lparr>number_type := Some t\<rparr>)
      else r)"

definition items_relabel :: "pylib \<Rightarrow> int list \<Rightarrow> json list \<Rightarrow> occ_row \<Rightarrow> occ_row" where
  "items_relabel L ids items r =
     (if row_id r \<in> set ids
      then (case label_for L (row_id r) items of
              None \<Rightarrow> r
            | Some t \<Rightarrow> r\<lparr>number_type := Some t\<rparr>)
      else r)"

section \<open>Concrete values for the examples\<close>

text \<open>A library instance in which no string is an integer literal or a JSON document, the
  envelope \<^verbatim>\<open>{"choices": [{"message": {"content": c}}]}\<close> of a chat completion, a result
  entry \<^verbatim>\<open>{"id": i, "type": t}\<close> and a reply \<^verbatim>\<open>{"results": [...]}\<close>.\<close>

definition lib0 :: pylib where
  "lib0 = \<lparr>str_int = (\<lambda>s. None), json_loads = (\<lambda>s. None)\<rparr>"

definition wrap_reply :: "json \<Rightarrow> json" where
  "wrap_reply c = JObj [(key_choices, JArr [JObj [(key_message, JObj [(key_content, c)])]])]"

definition result_entry :: "int \<Rightarrow> int \<Rightarrow> json" where
  "result_entry i t = JObj [(key_id, JInt i), (key_type, JInt t)]"

definition results_reply :: "json list \<Rightarrow> json" where
  "results_reply items = JObj [(key_results, JArr items)]"

text \<open>Three unlabelled occurrences with ids 1, 2 and 3, and a store that holds them.\<close>

definition demo_row :: "int \<Rightarrow> occ_row" where
  "demo_row i =
     \<lparr>row_id = i, source_id = 1, sentence = [19977, 27004, 19968, 30334, 20154],
      number_text = [19977], number_start = 0, number_end = 1, number_type = None\<rparr>"

definition demo_store :: store where
  "demo_store =
     \<lparr>sentences = [\<lparr>src_id = 1, content = [19977, 27004, 19968, 30334, 20154]\<rparr>],
      analysis = [demo_row 1, demo_row 2, demo_row 3],
      next_id = 4\<rparr>"

text \<open>A source table with the sentence of the end-to-end scenario and a sentence that
  contains U+7B2C, and an empty occurrence table.\<close>

definition demo_source :: store where
  "demo_source =
     \<lparr>sentences = [\<lparr>src_id = 1, content = [19977, 27004, 20303, 30528, 19968, 30334, 20154]\<rparr>,
                   \<lparr>src_id = 2, content = [31532, 19977, 27004]\<rparr>],
      analysis = [],
      next_id = 1\<rparr>"

text \<open>A run with two batches: 21 unlabelled occurrences, a library instance in which
  \<^verbatim>\<open>json.loads("[]")\<close> is the empty list, and a network on which every request for the
  batch of the first 20 occurrences fails while the request for the last occurrence is
  answered with the message content \<^verbatim>\<open>"[]"\<close>.\<close>

definition lib1 :: pylib where
  "lib1 = \<lparr>str_int = (\<lambda>s. None),
           json_loads = (\<lambda>s. if s = [91, 93] then Some (JArr []) else None)\<rparr>"

definition demo_batch20 :: "occ_row list" where
  "demo_batch20 =
     map demo_row [1, 2, 3, 4, 5, 6, 7, 8, 9, 10, 11, 12, 13, 14, 15, 16, 17, 18, 19, 20]"

definition demo_rows21 :: "occ_row list" where
  "demo_rows21 = demo_batch20 @ [demo_row 21]"

definition demo_store21 :: store where
  "demo_store21 =
     \<lparr>sentences = [\<lparr>src_id = 1, content = [19977, 27004, 19968, 30334, 20154]\<rparr>],
      analysis = demo_rows21,
      next_id = 22\<rparr>"

definition demo_net21 :: "occ_row list \<Rightarrow> nat \<Rightarrow> http_outcome" where
  "demo_net21 b i =
     (if b = [demo_row 21] then HttpData (wrap_reply (JStr [91, 93]))
      else HttpRaises RequestException)"

section \<open>Properties of the extractor\<close>

lemma slice_drop_shift:
  "n \<le> a \<Longrightarrow> slice (drop n t) (a - n) (b - n) = slice t a b"
  by (simp add: slice_def)

lemma finditer_from_spans:
  "m \<in> set (finditer_from i t) \<Longrightarrow>
     i \<le> mstart m \<and> mstart m < mend m \<and> mend m \<le> i + length t
     \<and> mtext m = slice t (mstart m - i) (mend m - i)
     \<and> (\<forall>c \<in> set (mtext m). is_numeral c)
     \<and> (t \<noteq> [] \<and> \<not> is_numeral (hd t) \<longrightarrow> i < mstart m)
     \<and> (i < mstart m \<longrightarrow> \<not> is_numeral (t ! (mstart m - i - 1)))
     \<and> (mend m < i + length t \<longrightarrow> \<not> is_numeral (t ! (mend m - i)))"
proof (induction i t rule: finditer_from.induct)
  case (1 i)
  then show ?case by simp
next
  case (2 i c cs)
  let ?tw = "takeWhile is_numeral cs"
  let ?dw = "dropWhile is_numeral cs"
  let ?n = "Suc (length ?tw)"
  show ?case
  proof (cases "is_numeral c")
    case False
    with "2.prems" have mem: "m \<in> set (finditer_from (Suc i) cs)" by simp
    note ih = "2.IH"(2)[OF False mem]
    from ih have a: "Suc i \<le> mstart m" "mstart m < mend m" "mend m \<le> Suc i + length cs"
      and tx: "mtext m = slice cs (mstart m - Suc i) (mend m - Suc i)"
      and nm: "\<forall>c \<in> set (mtext m). is_numeral c"
      and lft: "Suc i < mstart m \<longrightarrow> \<not> is_numeral (cs ! (mstart m - Suc i - 1))"
      and rgt: "mend m < Suc i + length cs \<longrightarrow> \<not> is_numeral (cs ! (mend m - Suc i))"
      by simp_all
    have tx': "mtext m = slice (c # cs) (mstart m - i) (mend m - i)"
      using slice_drop_shift[of 1 "mstart m - i" "c # cs" "mend m - i"] a tx by simp
    have l': "\<not> is_numeral ((c # cs) ! (mstart m - i - 1))"
    proof (cases "Suc i < mstart m")
      case True
      then have "(c # cs) ! (mstart m - i - 1) = cs ! (mstart m - Suc i - 1)"
        by (simp add: nth_Cons')
      with lft True show ?thesis by simp
    next
      case False
      with a have "mstart m = Suc i" by simp
      with \<open>\<not> is_numeral c\<close> show ?thesis by simp
    qed
    have r': "mend m < i + length (c # cs) \<longrightarrow> \<not> is_numeral ((c # cs) ! (mend m - i))"
      using rgt a by (auto simp: nth_Cons')
    from a tx' nm l' r' show ?thesis by auto
  next
    case True
    show ?thesis
    proof (cases "m = \<lparr>mtext = c # ?tw, mstart = i, mend = i + ?n\<rparr>")
      case hd: True
      have "slice (c # cs) 0 ?n = c # ?tw"
        using takeWhile_eq_take[of is_numeral cs] by (simp add: slice_def)
      moreover have "\<forall>x \<in> set (c # ?tw). is_numeral x"
        using True by (auto dest: set_takeWhileD)
      moreover have "length ?tw \<le> length cs" by (rule length_takeWhile_le)
      moreover have "length ?tw < length cs \<longrightarrow> \<not> is_numeral (cs ! length ?tw)"
        using nth_length_takeWhile[of is_numeral cs] by blast
      ultimately show ?thesis using hd True by simp
    next
      case tl: False
      with "2.prems" True have mem: "m \<in> set (finditer_from (i + ?n) ?dw)" by (simp add: Let_def)
      have "m \<in> set (finditer_from (i + length (c # ?tw)) ?dw)" using mem by simp
      note ih = "2.IH"(1)[OF True refl this]
      have dw: "?dw = drop ?n (c # cs)"
        using dropWhile_eq_drop[of is_numeral cs] by simp
      from ih have a: "i + ?n \<le> mstart m" "mstart m < mend m" "mend m \<le> i + ?n + length ?dw"
        and tx: "mtext m = slice ?dw (mstart m - (i + ?n)) (mend m - (i + ?n))"
        and nm: "\<forall>c \<in> set (mtext m). is_numeral c"
        and fst: "?dw \<noteq> [] \<and> \<not> is_numeral (hd ?dw) \<longrightarrow> i + ?n < mstart m"
        and lft: "i + ?n < mstart m \<longrightarrow> \<not> is_numeral (?dw ! (mstart m - (i + ?n) - 1))"
        and rgt: "mend m < i + ?n + length ?dw \<longrightarrow> \<not> is_numeral (?dw ! (mend m - (i + ?n)))"
        by simp_all
      have ne: "?dw \<noteq> []"
      proof
        assume "?dw = []"
        with a show False by simp
      qed
      then have "\<not> is_numeral (hd ?dw)" by (rule hd_dropWhile)
      with fst ne have strict: "i + ?n < mstart m" by simp
      have "length ?tw + length ?dw = length cs"
        by (metis length_append takeWhile_dropWhile_id)
      then have len: "?n + length ?dw = length (c # cs)" by simp
      have tx': "mtext m = slice (c # cs) (mstart m - i) (mend m - i)"
      proof -
        have "slice (drop ?n (c # cs)) ((mstart m - i) - ?n) ((mend m - i) - ?n)
                = slice (c # cs) (mstart m - i) (mend m - i)"
          by (rule slice_drop_shift) (use a in simp)
        with tx dw show ?thesis by simp
      qed
      have l': "\<not> is_numeral ((c # cs) ! (mstart m - i - 1))"
      proof -
        have "?dw ! (mstart m - (i + ?n) - 1) = (c # cs) ! (?n + (mstart m - (i + ?n) - 1))"
          unfolding dw by (rule nth_drop) (use len a in simp)
        moreover have "?n + (mstart m - (i + ?n) - 1) = mstart m - i - 1"
          using strict by simp
        ultimately show ?thesis using lft strict by simp
      qed
      have r': "mend m < i + length (c # cs) \<longrightarrow> \<not> is_numeral ((c # cs) ! (mend m - i))"
      proof
        assume lt: "mend m < i + length (c # cs)"
        have "?dw ! (mend m - (i + ?n)) = (c # cs) ! (?n + (mend m - (i + ?n)))"
          unfolding dw by (rule nth_drop) (use len lt a in simp)
        moreover have "?n + (mend m - (i + ?n)) = mend m - i" using a by simp
        ultimately show "\<not> is_numeral ((c # cs) ! (mend m - i))"
          using rgt lt len by simp
      qed
      from a strict tx' nm l' r' len True show ?thesis by auto
    qed
  qed
qed


lemma finditer_from_sorted:
  "sorted_wrt (\<lambda>a b. mend a < mstart b) (finditer_from i t)"
proof (induction i t rule: finditer_from.induct)
  case (1 i)
  show ?case by simp
next
  case (2 i c cs)
  let ?tw = "takeWhile is_numeral cs"
  let ?dw = "dropWhile is_numeral cs"
  show ?case
  proof (cases "is_numeral c")
    case False
    with "2.IH"(2) show ?thesis by simp
  next
    case True
    have rec: "sorted_wrt (\<lambda>a b. mend a < mstart b) (finditer_from (i + length (c # ?tw)) ?dw)"
      by (rule "2.IH"(1)[OF True refl])
    have after: "i + length (c # ?tw) < mstart m"
      if mem: "m \<in> set (finditer_from (i + length (c # ?tw)) ?dw)" for m
    proof -
      note sp = finditer_from_spans[OF mem]
      from sp have a: "i + length (c # ?tw) \<le> mstart m" "mstart m < mend m"
        "mend m \<le> i + length (c # ?tw) + length ?dw" by blast+
      have ne: "?dw \<noteq> []"
      proof
        assume "?dw = []"
        with a show False by simp
      qed
      then have "\<not> is_numeral (hd ?dw)" by (rule hd_dropWhile)
      with sp ne show ?thesis by blast
    qed
    show ?thesis using True rec after by (simp add: Let_def)
  qed
qed

lemma finditer_from_complete:
  "j < length t \<Longrightarrow> is_numeral (t ! j) \<Longrightarrow>
     \<exists>m \<in> set (finditer_from i t). mstart m \<le> i + j \<and> i + j < mend m"
proof (induction i t arbitrary: j rule: finditer_from.induct)
  case (1 i)
  then show ?case by simp
next
  case (2 i c cs)
  let ?tw = "takeWhile is_numeral cs"
  let ?dw = "dropWhile is_numeral cs"
  let ?n = "Suc (length ?tw)"
  show ?case
  proof (cases "is_numeral c")
    case False
    with "2.prems" obtain j' where j: "j = Suc j'" by (cases j) auto
    with "2.prems" have "j' < length cs" "is_numeral (cs ! j')" by simp_all
    from "2.IH"(2)[OF False this]
    obtain m where "m \<in> set (finditer_from (Suc i) cs)" "mstart m \<le> Suc i + j'"
      "Suc i + j' < mend m" by blast
    with False j show ?thesis by auto
  next
    case True
    show ?thesis
    proof (cases "j < ?n")
      case True
      with \<open>is_numeral c\<close> show ?thesis by (simp add: Let_def)
    next
      case False
      have dw: "?dw = drop ?n (c # cs)"
        using dropWhile_eq_drop[of is_numeral cs] by simp
      have a: "j - ?n < length ?dw" using False "2.prems"(1) unfolding dw by simp
      have "?dw ! (j - ?n) = (c # cs) ! (?n + (j - ?n))"
        unfolding dw by (rule nth_drop) (use "2.prems"(1) False in simp)
      also have "?n + (j - ?n) = j" using False by simp
      finally have b: "is_numeral (?dw ! (j - ?n))" using "2.prems"(2) by simp
      from "2.IH"(1)[OF True refl a b]
      obtain m where m: "m \<in> set (finditer_from (i + length (c # ?tw)) ?dw)"
        "mstart m \<le> i + length (c # ?tw) + (j - ?n)"
        "i + length (c # ?tw) + (j - ?n) < mend m" by blast
      have "i + length (c # ?tw) + (j - ?n) = i + j" using False by simp
      with m True show ?thesis by (auto simp: Let_def)
    qed
  qed
qed

lemma example_extract:
  "extract_chinese_numbers [19977, 27004, 20303, 30528, 19968, 30334, 20154]
     = [\<lparr>mtext = [19977], mstart = 0, mend = 1\<rparr>,
        \<lparr>mtext = [19968, 30334], mstart = 4, mend = 6\<rparr>]"
  by (simp add: extract_chinese_numbers_def is_numeral_def numeral_glyphs_def)

text \<open>
  Claim C8.  For every text the extractor returns (the function is total) the maximal runs
  of numeral glyphs: every match has \<open>start < end \<le> length text\<close>, its text is
  \<^verbatim>\<open>text[start:end]\<close> and consists of numeral glyphs, the glyph before its start and the
  glyph at its end are no numeral glyphs (longest run); the matches are in left-to-right
  order and do not overlap; every numeral glyph of the text lies in a match; and the
  sentence U+4E09 U+697C U+4F4F U+7740 U+4E00 U+767E U+4EBA gives U+4E09 at \<open>[0,1)\<close> and
  U+4E00 U+767E at \<open>[4,6)\<close>.
\<close>

theorem extract_chinese_numbers_spans:
  "(\<forall>m \<in> set (extract_chinese_numbers t).
       mstart m < mend m \<and> mend m \<le> length t
       \<and> mtext m = slice t (mstart m) (mend m)
       \<and> (\<forall>c \<in> set (mtext m). is_numeral c)
       \<and> (0 < mstart m \<longrightarrow> \<not> is_numeral (t ! (mstart m - 1)))
       \<and> (mend m < length t \<longrightarrow> \<not> is_numeral (t ! mend m)))
   \<and> sorted_wrt (\<lambda>a b. mend a < mstart b) (extract_chinese_numbers t)
   \<and> (\<forall>j < length t. is_numeral (t ! j) \<longrightarrow>
         (\<exists>m \<in> set (extract_chinese_numbers t). mstart m \<le> j \<and> j < mend m))
   \<and> extract_chinese_numbers [19977, 27004, 20303, 30528, 19968, 30334, 20154]
       = [\<lparr>mtext = [19977], mstart = 0, mend = 1\<rparr>,
          \<lparr>mtext = [19968, 30334], mstart = 4, mend = 6\<rparr>]"
proof (intro conjI ballI allI impI)
  fix m assume mem: "m \<in> set (extract_chinese_numbers t)"
  then have mem': "m \<in> set (finditer_from 0 t)" by (simp add: extract_chinese_numbers_def)
  note sp = finditer_from_spans[OF mem']
  from sp show "mstart m < mend m" by simp
  from sp show "mend m \<le> length t" by simp
  from sp show "mtext m = slice t (mstart m) (mend m)" by simp
  { fix c assume "c \<in> set (mtext m)" with sp show "is_numeral c" by blast }
  { assume "0 < mstart m" with sp show "\<not> is_numeral (t ! (mstart m - 1))" by simp }
  { assume "mend m < length t" with sp show "\<not> is_numeral (t ! mend m)" by simp }
next
  show "sorted_wrt (\<lambda>a b. mend a < mstart b) (extract_chinese_numbers t)"
    unfolding extract_chinese_numbers_def by (rule finditer_from_sorted)
next
  fix j assume "j < length t" "is_numeral (t ! j)"
  from finditer_from_complete[OF this, of 0]
  show "\<exists>m \<in> set (extract_chinese_numbers t). mstart m \<le> j \<and> j < mend m"
    by (simp add: extract_chinese_numbers_def)
next
  show "extract_chinese_numbers [19977, 27004, 20303, 30528, 19968, 30334, 20154]
     = [\<lparr>mtext = [19977], mstart = 0, mend = 1\<rparr>,
        \<lparr>mtext = [19968, 30334], mstart = 4, mend = 6\<rparr>]"
    by (rule example_extract)
qed

theorem extract_chinese_numbers_spans_witness:
  "\<lparr>mtext = [19968], mstart = 3, mend = 4\<rparr>
      \<in> set (extract_chinese_numbers [19977, 27004, 20154, 19968])
   \<and> mend \<lparr>mtext = [19968], mstart = 3, mend = 4\<rparr>
        \<le> length [19977, 27004, 20154, 19968 :: nat]
   \<and> mtext \<lparr>mtext = [19968], mstart = 3, mend = 4\<rparr>
        = slice [19977, 27004, 20154, 19968]
            (mstart \<lparr>mtext = [19968], mstart = 3, mend = 4\<rparr>)
            (mend \<lparr>mtext = [19968], mstart = 3, mend = 4\<rparr>)
   \<and> is_numeral ([19977, 27004, 20154, 19968] ! 3)
   \<and> (\<exists>m \<in> set (extract_chinese_numbers [19977, 27004, 20154, 19968]).
          mstart m \<le> 3 \<and> 3 < mend m)"
proof -
  have ev: "extract_chinese_numbers [19977, 27004, 20154, 19968]
     = [\<lparr>mtext = [19977], mstart = 0, mend = 1\<rparr>, \<lparr>mtext = [19968], mstart = 3, mend = 4\<rparr>]"
    by (simp add: extract_chinese_numbers_def is_numeral_def numeral_glyphs_def)
  then have mem: "\<lparr>mtext = [19968], mstart = 3, mend = 4\<rparr>
      \<in> set (extract_chinese_numbers [19977, 27004, 20154, 19968])"
    by simp
  have n3: "is_numeral ([19977, 27004, 20154, 19968] ! 3)"
    by (simp add: is_numeral_def numeral_glyphs_def)
  have l3: "3 < length [19977, 27004, 20154, 19968 :: nat]" by simp
  note th = extract_chinese_numbers_spans[of "[19977, 27004, 20154, 19968]"]
  from th have "\<forall>m \<in> set (extract_chinese_numbers [19977, 27004, 20154, 19968]).
         mend m \<le> length [19977, 27004, 20154, 19968 :: nat]
         \<and> mtext m = slice [19977, 27004, 20154, 19968] (mstart m) (mend m)"
    by blast
  with mem have 1: "mend \<lparr>mtext = [19968], mstart = 3, mend = 4\<rparr>
        \<le> length [19977, 27004, 20154, 19968 :: nat]
     \<and> mtext \<lparr>mtext = [19968], mstart = 3, mend = 4\<rparr>
        = slice [19977, 27004, 20154, 19968]
            (mstart \<lparr>mtext = [19968], mstart = 3, mend = 4\<rparr>)
            (mend \<lparr>mtext = [19968], mstart = 3, mend = 4\<rparr>)"
    by blast
  from th have "\<forall>j < length [19977, 27004, 20154, 19968 :: nat].
      is_numeral ([19977, 27004, 20154, 19968] ! j) \<longrightarrow>
         (\<exists>m \<in> set (extract_chinese_numbers [19977, 27004, 20154, 19968]).
            mstart m \<le> j \<and> j < mend m)"
    by blast
  with l3 n3 have 2: "\<exists>m \<in> set (extract_chinese_numbers [19977, 27004, 20154, 19968]).
           mstart m \<le> 3 \<and> 3 < mend m"
    by blast
  from mem 1 2 n3 show ?thesis by blast
qed

section \<open>Properties of the batcher\<close>

lemma concat_slices:
  "concat (map (\<lambda>k. slice xs (k * n) (k * n + n)) [0..<m]) = take (m * n) xs"
proof (induction m)
  case 0
  show ?case by simp
next
  case (Suc m)
  have "take (m * n + n) xs = take (m * n) xs @ take n (drop (m * n) xs)"
    by (rule take_add)
  with Suc show ?case by (simp add: slice_def add.commute)
qed

lemma batch_count_covers:
  assumes "1 \<le> (n::nat)"
  shows "L \<le> ((L + n - 1) div n) * n"
proof -
  have "(L + n - 1) mod n < n" using assms by simp
  moreover have "(L + n - 1) div n * n + (L + n - 1) mod n = L + n - 1" by simp
  ultimately show ?thesis by linarith
qed

lemma batch_count_tight:
  assumes "1 \<le> (n::nat)" "Suc k < (L + n - 1) div n"
  shows "Suc k * n \<le> L"
proof -
  have "Suc (Suc k) \<le> (L + n - 1) div n" using assms(2) by simp
  then have "Suc (Suc k) * n \<le> (L + n - 1) div n * n" by (rule mult_le_mono1)
  also have "\<dots> \<le> L + n - 1" by simp
  finally have "Suc k * n + n \<le> L + n - 1" by simp
  with assms(1) show ?thesis by linarith
qed

lemma batch_count_last:
  assumes "1 \<le> (n::nat)" "0 < L"
  shows "0 < (L + n - 1) div n" and "((L + n - 1) div n - 1) * n < L"
proof -
  have "n \<le> L + n - 1" using assms by simp
  then show pos: "0 < (L + n - 1) div n" using assms(1) by (simp add: div_greater_zero_iff)
  have "(L + n - 1) div n * n \<le> L + n - 1" by simp
  moreover have "((L + n - 1) div n - 1) * n + n = (L + n - 1) div n * n"
    using pos by (cases "(L + n - 1) div n") simp_all
  ultimately show "((L + n - 1) div n - 1) * n < L" using assms by linarith
qed

lemma make_batches_eq:
  "0 < n \<Longrightarrow>
   make_batches n xs
     = Some (map (\<lambda>k. slice xs (k * n) (k * n + n)) [0..<(length xs + n - 1) div n])"
  by (simp add: make_batches_def py_range_step_def comp_def)

text \<open>
  Claim C5.  For a non-empty list \<open>xs\<close> and a batch size \<open>n \<ge> 1\<close> the batching step
  succeeds; the concatenation of the batches is \<open>xs\<close>; batch \<open>k\<close> is the slice
  \<^verbatim>\<open>xs[k*n : k*n + n]\<close>, so the batches are contiguous, disjoint and in the original
  order; every batch but the last has exactly \<open>n\<close> elements, and the last has between
  \<open>1\<close> and \<open>n\<close>.
\<close>

theorem make_batches_partition:
  assumes "1 \<le> n" and "xs \<noteq> []"
  shows "\<exists>bs. make_batches n xs = Some bs
           \<and> concat bs = xs
           \<and> bs \<noteq> []
           \<and> (\<forall>k < length bs. bs ! k = slice xs (k * n) (k * n + n))
           \<and> (\<forall>k. Suc k < length bs \<longrightarrow> length (bs ! k) = n)
           \<and> 1 \<le> length (last bs) \<and> length (last bs) \<le> n"
proof -
  let ?m = "(length xs + n - 1) div n"
  let ?bs = "map (\<lambda>k. slice xs (k * n) (k * n + n)) [0..<?m]"
  from assms have L: "0 < length xs" and n: "0 < n" by simp_all
  have eq: "make_batches n xs = Some ?bs" using n by (rule make_batches_eq)
  have cat: "concat ?bs = xs"
    using batch_count_covers[OF assms(1), of "length xs"] by (simp add: concat_slices)
  have m: "0 < ?m" using batch_count_last(1)[OF assms(1) L] .
  then have ne: "?bs \<noteq> []" by simp
  have nth: "\<forall>k < length ?bs. ?bs ! k = slice xs (k * n) (k * n + n)" by simp
  have full: "\<forall>k. Suc k < length ?bs \<longrightarrow> length (?bs ! k) = n"
  proof (intro allI impI)
    fix k assume "Suc k < length ?bs"
    then have k: "Suc k < ?m" by simp
    from batch_count_tight[OF assms(1) k] have "k * n + n \<le> length xs" by simp
    moreover have "?bs ! k = slice xs (k * n) (k * n + n)" using k by simp
    ultimately show "length (?bs ! k) = n" by (simp add: slice_def)
  qed
  have lst: "last ?bs = slice xs ((?m - 1) * n) ((?m - 1) * n + n)"
    using m by (simp add: last_map)
  have "((?m - 1) * n) < length xs" using batch_count_last(2)[OF assms(1) L] .
  with n have "1 \<le> length (last ?bs)" "length (last ?bs) \<le> n"
    unfolding lst by (simp_all add: slice_def)
  with eq cat ne nth full show ?thesis by blast
qed

theorem make_batches_partition_witness:
  "(1::nat) \<le> 2 \<and> [10, 20, 30, 40, 50 :: int] \<noteq> []
   \<and> make_batches 2 [10, 20, 30, 40, 50 :: int] = Some [[10, 20], [30, 40], [50]]
   \<and> (\<exists>bs. make_batches 2 [10, 20, 30, 40, 50 :: int] = Some bs
           \<and> concat bs = [10, 20, 30, 40, 50]
           \<and> length (bs ! 0) = 2 \<and> length (bs ! 1) = 2 \<and> length (last bs) = 1)"
proof -
  have h1: "(1::nat) \<le> 2" by simp
  have h2: "[10, 20, 30, 40, 50 :: int] \<noteq> []" by simp
  have ev: "make_batches 2 [10, 20, 30, 40, 50 :: int] = Some [[10, 20], [30, 40], [50]]"
    by (simp add: make_batches_def py_range_step_def slice_def upt_rec)
  from make_batches_partition[OF h1 h2] obtain bs where
    bs: "make_batches 2 [10, 20, 30, 40, 50 :: int] = Some bs"
        "concat bs = [10, 20, 30, 40, 50]" by blast
  with ev have "bs = [[10, 20], [30, 40], [50]]" by simp
  then have "length (bs ! 0) = 2 \<and> length (bs ! 1) = 2 \<and> length (last bs) = 1" by simp
  with h1 h2 ev bs show ?thesis by blast
qed

section \<open>Properties of the oracle client\<close>

lemma attempts_loop_calls_le:
  "snd (attempts_loop L net idxs last_err calls) \<le> calls + length idxs"
proof (induction idxs arbitrary: last_err calls)
  case Nil
  show ?case by (simp split: option.split)
next
  case (Cons i rest)
  show ?case
  proof (cases "attempt_body L (net i)")
    case (Inl e)
    with Cons[of "Some e" "Suc calls"] show ?thesis by simp
  next
    case (Inr v)
    then show ?thesis by simp
  qed
qed

lemma attempts_loop_first_success:
  assumes "\<forall>i \<in> set pre. \<exists>e. attempt_body L (net i) = Inl e"
    and "attempt_body L (net k) = Inr v"
  shows "attempts_loop L net (pre @ k # post) last_err calls = (Inr v, calls + length pre + 1)"
  using assms(1)
proof (induction pre arbitrary: last_err calls)
  case Nil
  with assms(2) show ?case by simp
next
  case (Cons i pre)
  then obtain e where "attempt_body L (net i) = Inl e" by auto
  moreover from Cons.prems have "\<forall>i \<in> set pre. \<exists>e. attempt_body L (net i) = Inl e" by simp
  ultimately show ?case using Cons.IH[of "Some e" "Suc calls"] by simp
qed

lemma attempts_loop_all_fail:
  assumes "\<forall>i \<in> set idxs. \<exists>e. attempt_body L (net i) = Inl e"
  shows "\<exists>e. attempts_loop L net idxs last_err calls = (Inl e, calls + length idxs)
           \<and> (idxs \<noteq> [] \<longrightarrow> attempt_body L (net (last idxs)) = Inl e)
           \<and> (idxs = [] \<longrightarrow> e = (case last_err of None \<Rightarrow> TypeError | Some e' \<Rightarrow> e'))"
  using assms
proof (induction idxs arbitrary: last_err calls)
  case Nil
  show ?case by (simp split: option.split)
next
  case (Cons i rest)
  then obtain e where e: "attempt_body L (net i) = Inl e" by auto
  from Cons.prems have "\<forall>i \<in> set rest. \<exists>e. attempt_body L (net i) = Inl e" by simp
  from Cons.IH[OF this, of "Some e" "Suc calls"]
  obtain e' where e': "attempts_loop L net rest (Some e) (Suc calls) = (Inl e', Suc calls + length rest)"
    "rest \<noteq> [] \<longrightarrow> attempt_body L (net (last rest)) = Inl e'"
    "rest = [] \<longrightarrow> e' = e" by auto
  show ?case
  proof (cases "rest = []")
    case True
    with e e' show ?thesis by simp
  next
    case False
    with e e' show ?thesis by simp
  qed
qed

text \<open>
  Claim C4.  A call configured for \<open>N\<close> attempts posts at most \<open>N\<close> requests.  If
  attempt \<open>k < N\<close> (counted from 0) is the first whose body returns, the call returns that
  attempt's decoded result after exactly \<open>k + 1\<close> requests.  If all \<open>N\<close> attempts fail,
  the call raises after exactly \<open>N\<close> requests: the exception of the last attempt when
  \<open>N > 0\<close>, and \<^verbatim>\<open>TypeError\<close> (from \<^verbatim>\<open>raise None\<close>) when \<open>N = 0\<close>.
\<close>

theorem call_gemini_json_retry_bound:
  "snd (call_gemini_json L net N) \<le> N
   \<and> (\<forall>k v. k < N \<and> (\<forall>i < k. \<exists>e. attempt_body L (net i) = Inl e)
              \<and> attempt_body L (net k) = Inr v
          \<longrightarrow> call_gemini_json L net N = (Inr v, Suc k))
   \<and> ((\<forall>i < N. \<exists>e. attempt_body L (net i) = Inl e)
          \<longrightarrow> (\<exists>e. call_gemini_json L net N = (Inl e, N)
                 \<and> (0 < N \<longrightarrow> attempt_body L (net (N - 1)) = Inl e)
                 \<and> (N = 0 \<longrightarrow> e = TypeError)))"
proof (intro conjI allI impI)
  show "snd (call_gemini_json L net N) \<le> N"
    using attempts_loop_calls_le[of L net "[0..<N]" None 0]
    by (simp add: call_gemini_json_def)
next
  fix k v
  assume h: "k < N \<and> (\<forall>i < k. \<exists>e. attempt_body L (net i) = Inl e)
              \<and> attempt_body L (net k) = Inr v"
  then have split: "[0..<N] = [0..<k] @ k # [Suc k..<N]"
    by (metis le_add2 less_imp_add_positive upt_add_eq_append upt_conv_Cons
        add.commute plus_nat.add_0)
  from h have pre: "\<forall>i \<in> set [0..<k]. \<exists>e. attempt_body L (net i) = Inl e" by simp
  from h have ok: "attempt_body L (net k) = Inr v" by simp
  show "call_gemini_json L net N = (Inr v, Suc k)"
    unfolding call_gemini_json_def split
    using attempts_loop_first_success[OF pre ok, of "[Suc k..<N]" None 0] by simp
next
  assume "\<forall>i < N. \<exists>e. attempt_body L (net i) = Inl e"
  then have "\<forall>i \<in> set [0..<N]. \<exists>e. attempt_body L (net i) = Inl e" by simp
  from attempts_loop_all_fail[OF this, of None 0]
  obtain e where e: "attempts_loop L net [0..<N] None 0 = (Inl e, 0 + length [0..<N])"
    "[0..<N] \<noteq> [] \<longrightarrow> attempt_body L (net (last [0..<N])) = Inl e"
    "[0..<N] = [] \<longrightarrow> e = (case None of None \<Rightarrow> TypeError | Some e' \<Rightarrow> e')" by blast
  have "0 < N \<longrightarrow> attempt_body L (net (N - 1)) = Inl e"
    using e(2) by (cases N) simp_all
  moreover have "N = 0 \<longrightarrow> e = TypeError" using e(3) by simp
  moreover have "call_gemini_json L net N = (Inl e, N)"
    using e(1) by (simp add: call_gemini_json_def)
  ultimately show "\<exists>e. call_gemini_json L net N = (Inl e, N)
                 \<and> (0 < N \<longrightarrow> attempt_body L (net (N - 1)) = Inl e)
                 \<and> (N = 0 \<longrightarrow> e = TypeError)" by blast
qed


lemma attempt_body_wrap_reply:
  "attempt_body L (HttpData (wrap_reply (JObj d))) = Inr (JObj d)"
  by (simp add: attempt_body_def wrap_reply_def)

theorem call_gemini_json_retry_bound_witness:
  "call_gemini_json lib0
      (\<lambda>i. if i < 2 then HttpRaises RequestException
           else HttpData (wrap_reply (results_reply [result_entry 1 0]))) 3
     = (Inr (results_reply [result_entry 1 0]), 3)
   \<and> call_gemini_json lib0 (\<lambda>i. HttpRaises RequestException) 3
       = (Inl RequestException, 3)"
proof -
  let ?net = "\<lambda>i::nat. if i < 2 then HttpRaises RequestException
           else HttpData (wrap_reply (results_reply [result_entry 1 0]))"
  let ?bad = "\<lambda>i::nat. HttpRaises RequestException"
  have fails: "\<forall>i < 2. \<exists>e. attempt_body lib0 (?net i) = Inl e"
    by (simp add: attempt_body_def)
  have ok: "attempt_body lib0 (?net 2) = Inr (results_reply [result_entry 1 0])"
    by (simp add: results_reply_def attempt_body_wrap_reply)
  from call_gemini_json_retry_bound[of lib0 ?net 3] fails ok
  have 1: "call_gemini_json lib0 ?net 3 = (Inr (results_reply [result_entry 1 0]), 3)"
    by (metis eval_nat_numeral(3) lessI)
  have allfail: "\<forall>i < 3. \<exists>e. attempt_body lib0 (?bad i) = Inl e"
    by (simp add: attempt_body_def)
  have lastfail: "attempt_body lib0 (?bad (3 - 1)) = Inl RequestException"
    by (simp add: attempt_body_def)
  from call_gemini_json_retry_bound[of lib0 ?bad 3] allfail
  obtain e where "call_gemini_json lib0 ?bad 3 = (Inl e, 3)"
    "attempt_body lib0 (?bad (3 - 1)) = Inl e" by auto
  with lastfail have 2: "call_gemini_json lib0 ?bad 3 = (Inl RequestException, 3)" by simp
  from 1 2 show ?thesis by simp
qed

section \<open>Properties of the extraction into the store\<close>

lemma fold_insert_number:
  "\<exists>new. analysis (fold (insert_number sid tx) ms st) = analysis st @ new
      \<and> sentences (fold (insert_number sid tx) ms st) = sentences st
      \<and> next_id (fold (insert_number sid tx) ms st) = next_id st + int (length new)
      \<and> map (\<lambda>r. (source_id r, sentence r, number_text r, number_start r, number_end r)) new
           = map (\<lambda>m. (sid, tx, mtext m, int (mstart m), int (mend m))) ms
      \<and> (\<forall>r \<in> set new. number_type r = None)"
proof (induction ms arbitrary: st)
  case Nil
  show ?case by simp
next
  case (Cons m ms)
  let ?st1 = "insert_number sid tx m st"
  let ?row = "\<lparr>row_id = next_id st, source_id = sid, sentence = tx,
              number_text = mtext m, number_start = int (mstart m),
              number_end = int (mend m), number_type = None\<rparr>"
  from Cons[of ?st1] obtain new where new:
    "analysis (fold (insert_number sid tx) ms ?st1) = analysis ?st1 @ new"
    "sentences (fold (insert_number sid tx) ms ?st1) = sentences ?st1"
    "next_id (fold (insert_number sid tx) ms ?st1) = next_id ?st1 + int (length new)"
    "map (\<lambda>r. (source_id r, sentence r, number_text r, number_start r, number_end r)) new
       = map (\<lambda>m. (sid, tx, mtext m, int (mstart m), int (mend m))) ms"
    "\<forall>r \<in> set new. number_type r = None"
    by blast
  have st1: "analysis ?st1 = analysis st @ [?row]" "sentences ?st1 = sentences st"
    "next_id ?st1 = next_id st + 1"
    by (simp_all add: insert_number_def)
  show ?case
    apply (rule exI[of _ "?row # new"])
    using new st1 by simp
qed

lemma insert_sentence_rows:
  "\<exists>new. analysis (insert_sentence s st) = analysis st @ new
      \<and> sentences (insert_sentence s st) = sentences st
      \<and> next_id (insert_sentence s st) = next_id st + int (length new)
      \<and> map (\<lambda>r. (source_id r, sentence r, number_text r, number_start r, number_end r)) new
           = map (\<lambda>m. (src_id s, content s, mtext m, int (mstart m), int (mend m)))
               (extract_chinese_numbers (content s))
      \<and> (\<forall>r \<in> set new. number_type r = None)"
  unfolding insert_sentence_def by (rule fold_insert_number)

lemma fold_insert_sentence:
  "\<exists>new. analysis (fold insert_sentence ss st) = analysis st @ new
      \<and> sentences (fold insert_sentence ss st) = sentences st
      \<and> next_id (fold insert_sentence ss st) = next_id st + int (length new)
      \<and> map (\<lambda>r. (source_id r, sentence r, number_text r, number_start r, number_end r)) new
           = concat (map (\<lambda>s. map (\<lambda>m. (src_id s, content s, mtext m, int (mstart m), int (mend m)))
               (extract_chinese_numbers (content s))) ss)
      \<and> (\<forall>r \<in> set new. number_type r = None)"
proof (induction ss arbitrary: st)
  case Nil
  show ?case by simp
next
  case (Cons s ss)
  let ?st1 = "insert_sentence s st"
  from insert_sentence_rows[of s st] obtain new1 where new1:
    "analysis ?st1 = analysis st @ new1"
    "sentences ?st1 = sentences st"
    "next_id ?st1 = next_id st + int (length new1)"
    "map (\<lambda>r. (source_id r, sentence r, number_text r, number_start r, number_end r)) new1
           = map (\<lambda>m. (src_id s, content s, mtext m, int (mstart m), int (mend m)))
               (extract_chinese_numbers (content s))"
    "\<forall>r \<in> set new1. number_type r = None"
    by blast
  from Cons[of ?st1] obtain new2 where new2:
    "analysis (fold insert_sentence ss ?st1) = analysis ?st1 @ new2"
    "sentences (fold insert_sentence ss ?st1) = sentences ?st1"
    "next_id (fold insert_sentence ss ?st1) = next_id ?st1 + int (length new2)"
    "map (\<lambda>r. (source_id r, sentence r, number_text r, number_start r, number_end r)) new2
           = concat (map (\<lambda>s. map (\<lambda>m. (src_id s, content s, mtext m, int (mstart m), int (mend m)))
               (extract_chinese_numbers (content s))) ss)"
    "\<forall>r \<in> set new2. number_type r = None"
    by blast
  show ?case
    apply (rule exI[of _ "new1 @ new2"])
    using new1 new2 by auto
qed

lemma extract_and_insert_numbers_rows:
  "\<exists>new. analysis (extract_and_insert_numbers st) = analysis st @ new
      \<and> sentences (extract_and_insert_numbers st) = sentences st
      \<and> next_id (extract_and_insert_numbers st) = next_id st + int (length new)
      \<and> map (\<lambda>r. (source_id r, sentence r, number_text r, number_start r, number_end r)) new
           = concat (map (\<lambda>s. map (\<lambda>m. (src_id s, content s, mtext m, int (mstart m), int (mend m)))
               (extract_chinese_numbers (content s)))
               (filter (\<lambda>row. not_like_di (content row)) (sentences st)))
      \<and> (\<forall>r \<in> set new. number_type r = None)"
  unfolding extract_and_insert_numbers_def by (rule fold_insert_sentence)

lemma store_eqI:
  "analysis (a::store) = analysis b \<Longrightarrow> sentences a = sentences b \<Longrightarrow> next_id a = next_id b
     \<Longrightarrow> a = b"
  by simp

section \<open>Properties of the reconciliation\<close>

lemma row_id_items_relabel [simp]: "row_id (items_relabel L ids items r) = row_id r"
  by (simp add: items_relabel_def split: option.split)

lemma items_relabel_Nil [simp]: "items_relabel L ids [] r = r"
  by (simp add: items_relabel_def)

lemma items_relabel_Cons:
  "items_relabel L ids rest (items_relabel L ids [item] r) = items_relabel L ids (item # rest) r"
  by (cases item) (auto simp: items_relabel_def split: option.split)

lemma map_analysis_id [simp]: "st\<lparr>analysis := analysis st\<rparr> = (st::store)"
  by simp

lemma apply_item_ok:
  assumes "entry_ok item"
  shows "apply_item L ids item st
           = Inr (st\<lparr>analysis := map (items_relabel L ids [item]) (analysis st)\<rparr>)"
proof -
  from assms obtain d where d: "item = JObj d" and h: "hashable (dict_get d key_id JNull)"
    by (cases item) (simp_all add: entry_ok_def)
  show ?thesis
  proof (cases "id_key (dict_get d key_id JNull)")
    case None
    then have "map (items_relabel L ids [item]) (analysis st) = analysis st"
      using d by (simp add: items_relabel_def map_idI)
    with None d h show ?thesis by (simp add: apply_item_def)
  next
    case (Some k)
    show ?thesis
    proof (cases "k \<in> set ids")
      case True
      have "map (items_relabel L ids [item]) (analysis st)
              = map (\<lambda>r. if row_id r = k then r\<lparr>number_type := Some (decode_type L d)\<rparr> else r)
                  (analysis st)"
        using Some True d by (intro map_cong) (auto simp: items_relabel_def)
      with Some True d h show ?thesis by (simp add: apply_item_def update_type_def)
    next
      case False
      have "map (items_relabel L ids [item]) (analysis st) = analysis st"
        using Some False d by (intro map_idI) (auto simp: items_relabel_def)
      with Some False d h show ?thesis by (simp add: apply_item_def)
    qed
  qed
qed

lemma apply_item_raises:
  assumes "\<not> entry_ok item"
  shows "\<exists>e. \<forall>st. apply_item L ids item st = Inl e"
  using assms by (cases item) (auto simp: entry_ok_def apply_item_def)

lemma apply_items_ok:
  "list_all entry_ok items \<Longrightarrow>
   apply_items L ids items st
     = Inr (st\<lparr>analysis := map (items_relabel L ids items) (analysis st)\<rparr>)"
proof (induction items arbitrary: st)
  case Nil
  show ?case by (simp add: map_idI)
next
  case (Cons item rest)
  then have ok: "entry_ok item" and rest: "list_all entry_ok rest" by simp_all
  show ?case
    by (simp add: apply_item_ok[OF ok] Cons.IH[OF rest] items_relabel_Cons comp_def)
qed

lemma apply_items_raises:
  "\<not> list_all entry_ok items \<Longrightarrow> \<exists>e. \<forall>st. apply_items L ids items st = Inl e"
proof (induction items)
  case Nil
  then show ?case by simp
next
  case (Cons item rest)
  show ?case
  proof (cases "entry_ok item")
    case False
    from apply_item_raises[OF this, of L ids] obtain e
      where "\<forall>st. apply_item L ids item st = Inl e" by blast
    then show ?thesis by simp
  next
    case True
    with Cons.prems have "\<not> list_all entry_ok rest" by simp
    from Cons.IH[OF this] obtain e where "\<forall>st. apply_items L ids rest st = Inl e" by blast
    then show ?thesis by (simp add: apply_item_ok[OF True])
  qed
qed

lemma update_type_fields [simp]:
  "sentences (update_type k v st) = sentences st"
  "next_id (update_type k v st) = next_id st"
  by (simp_all add: update_type_def)

lemma mark_failed_eq:
  "mark_failed batch st
     = st\<lparr>analysis := map (\<lambda>r. if row_id r \<in> row_id ` set batch
                                 then r\<lparr>number_type := Some (- 1)\<rparr> else r) (analysis st)\<rparr>"
proof (induction batch arbitrary: st)
  case Nil
  show ?case by (simp add: mark_failed_def map_idI)
next
  case (Cons b batch)
  have "mark_failed (b # batch) st = mark_failed batch (update_type (row_id b) (- 1) st)"
    by (simp add: mark_failed_def)
  also have "\<dots> = st\<lparr>analysis := map (\<lambda>r. if row_id r \<in> row_id ` set (b # batch)
                                 then r\<lparr>number_type := Some (- 1)\<rparr> else r) (analysis st)\<rparr>"
    unfolding Cons.IH by (auto simp: update_type_def)
  finally show ?case .
qed

lemma reconcile_batch_ok:
  assumes "batch_ok (snd outcome)"
  shows "reconcile_batch L outcome st
           = Inr (st\<lparr>analysis := map (relabel L outcome) (analysis st)\<rparr>)"
proof -
  obtain batch res where o: "outcome = (batch, res)" by (cases outcome)
  show ?thesis
  proof (cases res)
    case JNull
    have "relabel L (batch, JNull) = (\<lambda>r. if row_id r \<in> row_id ` set batch
                                 then r\<lparr>number_type := Some (- 1)\<rparr> else r)"
      by (rule ext) (simp add: relabel_def batch_label_def)
    with o JNull show ?thesis by (simp add: reconcile_batch_def mark_failed_eq)
  next
    case (JObj d)
    show ?thesis
    proof (cases "dict_get d key_results (JArr [])")
      case (JArr items)
      with assms o JObj have ok: "list_all entry_ok items" by (simp add: batch_ok_def)
      have "relabel L (batch, JObj d) = items_relabel L (map row_id batch) items"
        using JArr by (intro ext) (simp add: relabel_def batch_label_def items_relabel_def)
      with o JObj JArr apply_items_ok[OF ok] show ?thesis
        by (simp add: reconcile_batch_def)
    qed (use o JObj in \<open>simp_all add: reconcile_batch_def mark_failed_eq relabel_def
          batch_label_def cong: if_cong\<close>)
  qed (use assms o in \<open>simp_all add: batch_ok_def\<close>)
qed

lemma reconcile_batch_raises:
  assumes "\<not> batch_ok (snd outcome)"
  shows "\<exists>e. \<forall>st. reconcile_batch L outcome st = Inl e"
proof -
  obtain batch res where o: "outcome = (batch, res)" by (cases outcome)
  show ?thesis
  proof (cases res)
    case (JObj d)
    show ?thesis
    proof (cases "dict_get d key_results (JArr [])")
      case (JArr items)
      with assms o JObj have "\<not> list_all entry_ok items" by (simp add: batch_ok_def)
      from apply_items_raises[OF this, of L "map row_id batch"] o JObj JArr
      show ?thesis by (simp add: reconcile_batch_def)
    qed (use assms o JObj in \<open>simp_all add: batch_ok_def\<close>)
  qed (use assms o in \<open>simp_all add: batch_ok_def reconcile_batch_def\<close>)
qed

lemma row_id_relabel [simp]: "row_id (relabel L outcome r) = row_id r"
  by (simp add: relabel_def split: option.split)

lemma row_id_fold_relabel [simp]: "row_id (fold (relabel L) outs r) = row_id r"
  by (induction outs arbitrary: r) simp_all

lemma fold_relabel_outside:
  "\<forall>outcome \<in> set outs. row_id r \<notin> row_id ` set (fst outcome)
     \<Longrightarrow> fold (relabel L) outs r = r"
  by (induction outs arbitrary: r) (simp_all add: relabel_def)

lemma reconcile_all_closed:
  "\<exists>x. (x = None \<longleftrightarrow> list_all (\<lambda>outcome. batch_ok (snd outcome)) outs)
     \<and> (\<forall>st. reconcile_all L outs st
            = (st\<lparr>analysis :=
                   map (fold (relabel L) (takeWhile (\<lambda>outcome. batch_ok (snd outcome)) outs))
                     (analysis st)\<rparr>, x))"
proof (induction outs)
  case Nil
  show ?case by (simp add: map_idI)
next
  case (Cons outcome rest)
  show ?case
  proof (cases "batch_ok (snd outcome)")
    case False
    from reconcile_batch_raises[OF this, of L] obtain e
      where "\<forall>st. reconcile_batch L outcome st = Inl e" by blast
    with False show ?thesis by (intro exI[of _ "Some e"]) (simp add: map_idI)
  next
    case True
    from Cons.IH obtain x where x:
      "x = None \<longleftrightarrow> list_all (\<lambda>outcome. batch_ok (snd outcome)) rest"
      "\<forall>st. reconcile_all L rest st
            = (st\<lparr>analysis :=
                   map (fold (relabel L) (takeWhile (\<lambda>outcome. batch_ok (snd outcome)) rest))
                     (analysis st)\<rparr>, x)"
      by blast
    show ?thesis
      using True x by (intro exI[of _ x]) (simp add: reconcile_batch_ok comp_def)
  qed
qed

lemma reconcile_all_completed:
  assumes "reconcile_all L outs st = (st', None)"
  shows "st' = st\<lparr>analysis := map (fold (relabel L) outs) (analysis st)\<rparr>"
    and "list_all (\<lambda>outcome. batch_ok (snd outcome)) outs"
proof -
  from reconcile_all_closed[of outs L] obtain x where x:
    "x = None \<longleftrightarrow> list_all (\<lambda>outcome. batch_ok (snd outcome)) outs"
    "\<forall>st. reconcile_all L outs st
            = (st\<lparr>analysis :=
                   map (fold (relabel L) (takeWhile (\<lambda>outcome. batch_ok (snd outcome)) outs))
                     (analysis st)\<rparr>, x)"
    by blast
  from x(2) assms have "x = None" by simp
  with x(1) show all: "list_all (\<lambda>outcome. batch_ok (snd outcome)) outs" by simp
  then have "takeWhile (\<lambda>outcome. batch_ok (snd outcome)) outs = outs"
    by (simp add: list_all_iff)
  with x(2) assms show "st' = st\<lparr>analysis := map (fold (relabel L) outs) (analysis st)\<rparr>"
    by simp
qed

lemma reconcile_all_frame:
  "sentences (fst (reconcile_all L outs st)) = sentences st"
  "next_id (fst (reconcile_all L outs st)) = next_id st"
  "map row_id (analysis (fst (reconcile_all L outs st))) = map row_id (analysis st)"
proof -
  from reconcile_all_closed[of outs L] obtain x where
    "\<forall>st. reconcile_all L outs st
            = (st\<lparr>analysis :=
                   map (fold (relabel L) (takeWhile (\<lambda>outcome. batch_ok (snd outcome)) outs))
                     (analysis st)\<rparr>, x)"
    by blast
  then show "sentences (fst (reconcile_all L outs st)) = sentences st"
    "next_id (fst (reconcile_all L outs st)) = next_id st"
    "map row_id (analysis (fst (reconcile_all L outs st))) = map row_id (analysis st)"
    by (simp_all add: comp_def)
qed

lemma reconcile_all_agree:
  assumes "filter (\<lambda>r. row_id r \<notin> K) (analysis s1) = filter (\<lambda>r. row_id r \<notin> K) (analysis s2)"
  shows "snd (reconcile_all L outs s1) = snd (reconcile_all L outs s2)
       \<and> filter (\<lambda>r. row_id r \<notin> K) (analysis (fst (reconcile_all L outs s1)))
           = filter (\<lambda>r. row_id r \<notin> K) (analysis (fst (reconcile_all L outs s2)))"
proof -
  let ?G = "fold (relabel L) (takeWhile (\<lambda>outcome. batch_ok (snd outcome)) outs)"
  from reconcile_all_closed[of outs L] obtain x where x:
    "\<forall>st. reconcile_all L outs st = (st\<lparr>analysis := map ?G (analysis st)\<rparr>, x)"
    by blast
  have comm: "filter (\<lambda>r. row_id r \<notin> K) (map ?G xs) = map ?G (filter (\<lambda>r. row_id r \<notin> K) xs)"
    for xs by (simp add: filter_map comp_def)
  show ?thesis using x assms by (simp add: comm)
qed

lemma reconcile_all_skip_failed:
  "snd (reconcile_all L (pre @ (b, JNull) # post) st) = snd (reconcile_all L (pre @ post) st)
   \<and> filter (\<lambda>r. row_id r \<notin> row_id ` set b)
        (analysis (fst (reconcile_all L (pre @ (b, JNull) # post) st)))
     = filter (\<lambda>r. row_id r \<notin> row_id ` set b)
        (analysis (fst (reconcile_all L (pre @ post) st)))"
proof (induction pre arbitrary: st)
  case Nil
  have "filter (\<lambda>r. row_id r \<notin> row_id ` set b) (analysis (mark_failed b st))
          = filter (\<lambda>r. row_id r \<notin> row_id ` set b) (analysis st)"
    by (auto simp: mark_failed_eq filter_map comp_def intro!: map_idI)
  from reconcile_all_agree[OF this, of L post]
  show ?case by (simp add: reconcile_batch_def)
next
  case (Cons outcome pre)
  show ?case
  proof (cases "reconcile_batch L outcome st")
    case (Inl e)
    then show ?thesis by simp
  next
    case (Inr st1)
    with Cons[of st1] show ?thesis by simp
  qed
qed

lemma reconcile_all_marks_failed:
  assumes pre: "snd (reconcile_all L pre st) = None"
    and post: "\<forall>outcome \<in> set post. row_id ` set (fst outcome) \<inter> row_id ` set b = {}"
    and r: "r \<in> set (analysis (fst (reconcile_all L (pre @ (b, JNull) # post) st)))"
           "row_id r \<in> row_id ` set b"
  shows "number_type r = Some (- 1)"
proof -
  let ?ok = "\<lambda>outcome. batch_ok (snd outcome)"
  from reconcile_all_closed[of pre L] pre have okpre: "list_all ?ok pre"
    by (metis snd_conv)
  let ?post' = "takeWhile ?ok post"
  have tw: "takeWhile ?ok (pre @ (b, JNull) # post) = pre @ (b, JNull) # ?post'"
    using okpre by (simp add: list_all_iff batch_ok_def)
  from reconcile_all_closed[of "pre @ (b, JNull) # post" L] obtain x where
    "\<forall>st. reconcile_all L (pre @ (b, JNull) # post) st
        = (st\<lparr>analysis := map (fold (relabel L) (takeWhile ?ok (pre @ (b, JNull) # post)))
                             (analysis st)\<rparr>, x)"
    by blast
  with r(1) tw obtain r0 where r0: "r0 \<in> set (analysis st)"
    "r = fold (relabel L) (pre @ (b, JNull) # ?post') r0"
    by auto
  let ?r1 = "fold (relabel L) pre r0"
  have id1: "row_id ?r1 = row_id r" using r0(2) by simp
  have r2: "relabel L (b, JNull) ?r1 = ?r1\<lparr>number_type := Some (- 1)\<rparr>"
    using id1 r(2) by (simp add: relabel_def batch_label_def)
  have "\<forall>outcome \<in> set ?post'. row_id (?r1\<lparr>number_type := Some (- 1)\<rparr>) \<notin> row_id ` set (fst outcome)"
  proof
    fix outcome assume "outcome \<in> set ?post'"
    then have "outcome \<in> set post" by (rule set_takeWhileD[THEN conjunct1])
    with post have "row_id ` set (fst outcome) \<inter> row_id ` set b = {}" by blast
    with r(2) id1 show "row_id (?r1\<lparr>number_type := Some (- 1)\<rparr>) \<notin> row_id ` set (fst outcome)"
      by auto
  qed
  from fold_relabel_outside[OF this, of L]
  have "r = ?r1\<lparr>number_type := Some (- 1)\<rparr>" using r0(2) r2 by simp
  then show ?thesis by (metis occ_row.select_convs(7) occ_row.surjective occ_row.update_convs(7))
qed

lemma decode_type_range: "decode_type L d \<in> {0, 1, 2, - 1}"
  by (simp add: decode_type_def split: sum.split)

lemma label_for_range: "label_for L k items = Some t \<Longrightarrow> t \<in> {0, 1, 2, - 1}"
proof (induction items)
  case Nil
  then show ?case by simp
next
  case (Cons item rest)
  show ?case
  proof (cases "label_for L k rest")
    case (Some t')
    with Cons show ?thesis by simp
  next
    case None
    with Cons.prems obtain d where "item = JObj d" "t = decode_type L d"
      by (cases item) (auto split: if_splits)
    then show ?thesis using decode_type_range[of L d] by simp
  qed
qed

lemma label_for_None_iff:
  "label_for L k items = None
     \<longleftrightarrow> (\<forall>d. JObj d \<in> set items \<longrightarrow> id_key (dict_get d key_id JNull) \<noteq> Some k)"
proof (induction items)
  case Nil
  show ?case by simp
next
  case (Cons item rest)
  show ?case
  proof (cases "label_for L k rest")
    case (Some t)
    with Cons show ?thesis by auto
  next
    case None
    with Cons show ?thesis by (cases item) auto
  qed
qed

lemma label_for_last:
  assumes "id_key (dict_get d key_id JNull) = Some k" and "label_for L k post = None"
  shows "label_for L k (pre @ JObj d # post) = Some (decode_type L d)"
  using assms by (induction pre) simp_all



lemma mark_failed_rows:
  "r \<in> set (analysis (mark_failed batch st)) \<Longrightarrow> row_id r \<in> row_id ` set batch
     \<Longrightarrow> number_type r = Some (- 1)"
  by (auto simp: mark_failed_eq)

lemma mark_failed_outside:
  "filter (\<lambda>r. row_id r \<notin> row_id ` set batch) (analysis (mark_failed batch st))
     = filter (\<lambda>r. row_id r \<notin> row_id ` set batch) (analysis st)"
  by (auto simp: mark_failed_eq filter_map comp_def intro!: map_idI)

lemma decode_type_cases:
  "decode_type L d =
     (case dict_get d key_type JNull of
        JNull \<Rightarrow> - 1
      | JBool b \<Rightarrow> (if b then 1 else 0)
      | JInt n \<Rightarrow> (if n = 0 \<or> n = 1 \<or> n = 2 then n else - 1)
      | JFloat f \<Rightarrow>
          (case f of
             Finite r \<Rightarrow>
               (if trunc_rat r = 0 \<or> trunc_rat r = 1 \<or> trunc_rat r = 2
                then trunc_rat r else - 1)
           | PosInf \<Rightarrow> - 1
           | NegInf \<Rightarrow> - 1
           | NaN \<Rightarrow> - 1)
      | JStr s \<Rightarrow>
          (case str_int L s of
             None \<Rightarrow> - 1
           | Some n \<Rightarrow> (if n = 0 \<or> n = 1 \<or> n = 2 then n else - 1))
      | JArr vs \<Rightarrow> - 1
      | JObj d' \<Rightarrow> - 1)"
  by (simp add: decode_type_def split: json.split pyfloat.split option.split)

lemma decode_type_missing: "map_of d key_type = None \<Longrightarrow> decode_type L d = - 1"
  by (simp add: decode_type_def dict_get_def)




text \<open>
  Counterexample to claim C3 as stated: the reply \<^verbatim>\<open>{}\<close> holds no list of results, its
  reconciliation succeeds and writes nothing (the record of the batch stays
  \<^verbatim>\<open>NULL\<close>), whereas an oracle error marks the record.
\<close>

theorem reconcile_batch_no_results_key_counterexample:
  "map_of ([] :: (pystr \<times> json) list) key_results = None
   \<and> reconcile_batch lib0 ([demo_row 1], JObj []) demo_store = Inr demo_store
   \<and> map number_type (analysis demo_store) = [None, None, None]
   \<and> reconcile_batch lib0 ([demo_row 1], JNull) demo_store \<noteq> Inr demo_store"
  by (simp add: reconcile_batch_def dict_get_def mark_failed_def update_type_def
      demo_store_def demo_row_def)

text \<open>
  Claim C3, amended.  If the reply is an object whose \<^verbatim>\<open>"results"\<close> entry is present and
  is not a list, every record of the batch is marked Failed (\<open>number_type = -1\<close>),
  exactly as when the call returned no result; if the object has no \<^verbatim>\<open>"results"\<close>
  entry, the result list defaults to the empty list and nothing is written.
\<close>

theorem reconcile_batch_results_not_list:
  "(map_of d key_results = Some v \<and> (\<forall>items. v \<noteq> JArr items)
      \<longrightarrow> reconcile_batch L (batch, JObj d) st = Inr (mark_failed batch st)
        \<and> reconcile_batch L (batch, JObj d) st = reconcile_batch L (batch, JNull) st
        \<and> (\<forall>r \<in> set (analysis (mark_failed batch st)).
              row_id r \<in> row_id ` set batch \<longrightarrow> number_type r = Some (- 1)))
   \<and> (map_of d key_results = None \<longrightarrow> reconcile_batch L (batch, JObj d) st = Inr st)"
proof (intro conjI impI)
  assume h: "map_of d key_results = Some v \<and> (\<forall>items. v \<noteq> JArr items)"
  then show 1: "reconcile_batch L (batch, JObj d) st = Inr (mark_failed batch st)"
    by (cases v) (simp_all add: reconcile_batch_def dict_get_def)
  then show "reconcile_batch L (batch, JObj d) st = reconcile_batch L (batch, JNull) st"
    by (simp add: reconcile_batch_def)
  show "\<forall>r \<in> set (analysis (mark_failed batch st)).
              row_id r \<in> row_id ` set batch \<longrightarrow> number_type r = Some (- 1)"
    using mark_failed_rows by blast
next
  assume "map_of d key_results = None"
  then show "reconcile_batch L (batch, JObj d) st = Inr st"
    by (simp add: reconcile_batch_def dict_get_def)
qed

theorem reconcile_batch_results_not_list_witness:
  "map_of [(key_results, JStr [])] key_results = Some (JStr [])
   \<and> reconcile_batch lib0 ([demo_row 1, demo_row 2], JObj [(key_results, JStr [])]) demo_store
       = Inr (mark_failed [demo_row 1, demo_row 2] demo_store)
   \<and> map number_type (analysis (mark_failed [demo_row 1, demo_row 2] demo_store))
       = [Some (- 1), Some (- 1), None]
   \<and> demo_row 1\<lparr>number_type := Some (- 1)\<rparr>
        \<in> set (analysis (mark_failed [demo_row 1, demo_row 2] demo_store))
   \<and> number_type (demo_row 1\<lparr>number_type := Some (- 1)\<rparr>) = Some (- 1)"
proof -
  have h: "map_of [(key_results, JStr [])] key_results = Some (JStr [])
             \<and> (\<forall>items. JStr [] \<noteq> JArr items)" by simp
  have ev: "map number_type (analysis (mark_failed [demo_row 1, demo_row 2] demo_store))
       = [Some (- 1), Some (- 1), None]"
    by (simp add: mark_failed_def update_type_def demo_store_def demo_row_def)
  have mem: "demo_row 1\<lparr>number_type := Some (- 1)\<rparr>
        \<in> set (analysis (mark_failed [demo_row 1, demo_row 2] demo_store))"
    by (simp add: mark_failed_def update_type_def demo_store_def demo_row_def)
  from reconcile_batch_results_not_list
    [of "[(key_results, JStr [])]" "JStr []" lib0 "[demo_row 1, demo_row 2]" demo_store] h
  have "reconcile_batch lib0 ([demo_row 1, demo_row 2], JObj [(key_results, JStr [])]) demo_store
       = Inr (mark_failed [demo_row 1, demo_row 2] demo_store)"
    by blast
  with h ev mem show ?thesis by simp
qed

text \<open>
  Counterexample to claim C1 as stated (the partial-failure scenario of the
  specification): for a batch of the records 1, 2, 3 and a result list with valid types
  for 1 and 2 only, record 3 is not marked Failed: it is left \<^verbatim>\<open>NULL\<close>.
\<close>

theorem reconcile_batch_missing_id_counterexample:
  "\<exists>st'. reconcile_batch lib0
       ([demo_row 1, demo_row 2, demo_row 3],
        results_reply [result_entry 1 1, result_entry 2 0]) demo_store = Inr st'
     \<and> map row_id (analysis st') = [1, 2, 3]
     \<and> map number_type (analysis st') = [Some 1, Some 0, None]
     \<and> number_type (analysis st' ! 2) \<noteq> Some (- 1)"
  by (simp add: reconcile_batch_def dict_get_def results_reply_def result_entry_def
      apply_item_def decode_type_def update_type_def demo_store_def demo_row_def
      key_results_def key_id_def key_type_def)

text \<open>
  Claim C1, amended.  When the reply is an object whose result list consists of dicts
  with hashable ids, the reconciliation succeeds and, for every record of the batch:
  if its id is found in the result list, its \<open>number_type\<close> becomes the label decoded
  from the last entry with that id; if its id is not found in the result list, the record
  is left as it was.  Records outside the batch are left as they were.  The decoded label
  is \<^verbatim>\<open>int(type)\<close> when that is 0, 1 or 2 and \<open>-1\<close> (Failed) otherwise: an integer is
  taken as it is, \<^verbatim>\<open>true\<close> is 1 and \<^verbatim>\<open>false\<close> is 0, a finite float is truncated towards
  zero, a string is parsed as an integer literal, and a missing type, \<^verbatim>\<open>null\<close>, a list, a
  dict, a NaN, an infinity and a string that is no integer literal give \<open>-1\<close>.
\<close>

theorem reconcile_batch_partial_success:
  "(dict_get d key_results (JArr []) = JArr items \<and> list_all entry_ok items
      \<longrightarrow> reconcile_batch L (batch, JObj d) st
            = Inr (st\<lparr>analysis :=
                     map (\<lambda>r. if row_id r \<in> row_id ` set batch
                              then (case label_for L (row_id r) items of
                                      None \<Rightarrow> r
                                    | Some t \<Rightarrow> r\<lparr>number_type := Some t\<rparr>)
                              else r) (analysis st)\<rparr>))
   \<and> (label_for L k items = None
        \<longleftrightarrow> (\<forall>d'. JObj d' \<in> set items \<longrightarrow> id_key (dict_get d' key_id JNull) \<noteq> Some k))
   \<and> (\<forall>pre d' post. items = pre @ JObj d' # post
          \<and> id_key (dict_get d' key_id JNull) = Some k \<and> label_for L k post = None
        \<longrightarrow> label_for L k items = Some (decode_type L d')
           \<and> decode_type L d' \<in> {0, 1, 2, - 1}
           \<and> decode_type L d' =
               (case dict_get d' key_type JNull of
                  JNull \<Rightarrow> - 1
                | JBool b \<Rightarrow> (if b then 1 else 0)
                | JInt n \<Rightarrow> (if n = 0 \<or> n = 1 \<or> n = 2 then n else - 1)
                | JFloat f \<Rightarrow>
                    (case f of
                       Finite r \<Rightarrow>
                         (if trunc_rat r = 0 \<or> trunc_rat r = 1 \<or> trunc_rat r = 2
                          then trunc_rat r else - 1)
                     | PosInf \<Rightarrow> - 1
                     | NegInf \<Rightarrow> - 1
                     | NaN \<Rightarrow> - 1)
                | JStr s \<Rightarrow>
                    (case str_int L s of
                       None \<Rightarrow> - 1
                     | Some n \<Rightarrow> (if n = 0 \<or> n = 1 \<or> n = 2 then n else - 1))
                | JArr vs \<Rightarrow> - 1
                | JObj d'' \<Rightarrow> - 1)
           \<and> (map_of d' key_type = None \<longrightarrow> decode_type L d' = - 1))"
proof (intro conjI impI allI)
  assume h: "dict_get d key_results (JArr []) = JArr items \<and> list_all entry_ok items"
  then have ok: "batch_ok (snd (batch, JObj d))" by (simp add: batch_ok_def)
  have "relabel L (batch, JObj d) = (\<lambda>r. if row_id r \<in> row_id ` set batch
                              then (case label_for L (row_id r) items of
                                      None \<Rightarrow> r
                                    | Some t \<Rightarrow> r\<lparr>number_type := Some t\<rparr>)
                              else r)"
    using h by (intro ext) (simp add: relabel_def batch_label_def)
  with reconcile_batch_ok[OF ok, of L st]
  show "reconcile_batch L (batch, JObj d) st
            = Inr (st\<lparr>analysis :=
                     map (\<lambda>r. if row_id r \<in> row_id ` set batch
                              then (case label_for L (row_id r) items of
                                      None \<Rightarrow> r
                                    | Some t \<Rightarrow> r\<lparr>number_type := Some t\<rparr>)
                              else r) (analysis st)\<rparr>)"
    by simp
next
  show "label_for L k items = None
        \<longleftrightarrow> (\<forall>d'. JObj d' \<in> set items \<longrightarrow> id_key (dict_get d' key_id JNull) \<noteq> Some k)"
    by (rule label_for_None_iff)
next
  fix pre d' post
  assume h: "items = pre @ JObj d' # post
          \<and> id_key (dict_get d' key_id JNull) = Some k \<and> label_for L k post = None"
  then show "label_for L k items = Some (decode_type L d')"
    using label_for_last[of d' k L post pre] by simp
  show "decode_type L d' \<in> {0, 1, 2, - 1}" by (rule decode_type_range)
  show "decode_type L d' =
               (case dict_get d' key_type JNull of
                  JNull \<Rightarrow> - 1
                | JBool b \<Rightarrow> (if b then 1 else 0)
                | JInt n \<Rightarrow> (if n = 0 \<or> n = 1 \<or> n = 2 then n else - 1)
                | JFloat f \<Rightarrow>
                    (case f of
                       Finite r \<Rightarrow>
                         (if trunc_rat r = 0 \<or> trunc_rat r = 1 \<or> trunc_rat r = 2
                          then trunc_rat r else - 1)
                     | PosInf \<Rightarrow> - 1
                     | NegInf \<Rightarrow> - 1
                     | NaN \<Rightarrow> - 1)
                | JStr s \<Rightarrow>
                    (case str_int L s of
                       None \<Rightarrow> - 1
                     | Some n \<Rightarrow> (if n = 0 \<or> n = 1 \<or> n = 2 then n else - 1))
                | JArr vs \<Rightarrow> - 1
                | JObj d'' \<Rightarrow> - 1)"
    by (rule decode_type_cases)
  assume "map_of d' key_type = None"
  then show "decode_type L d' = - 1" by (rule decode_type_missing)
qed

theorem reconcile_batch_partial_success_witness:
  "dict_get [(key_results, JArr [JObj [(key_id, JInt 1), (key_type, JBool True)],
                                 JObj [(key_id, JInt 2), (key_type, JInt 7)]])]
      key_results (JArr [])
     = JArr [JObj [(key_id, JInt 1), (key_type, JBool True)],
             JObj [(key_id, JInt 2), (key_type, JInt 7)]]
   \<and> list_all entry_ok [JObj [(key_id, JInt 1), (key_type, JBool True)],
                         JObj [(key_id, JInt 2), (key_type, JInt 7)]]
   \<and> (\<exists>st'. reconcile_batch lib0
         ([demo_row 1, demo_row 2, demo_row 3],
          JObj [(key_results, JArr [JObj [(key_id, JInt 1), (key_type, JBool True)],
                                    JObj [(key_id, JInt 2), (key_type, JInt 7)]])])
         demo_store = Inr st'
        \<and> map number_type (analysis st') = [Some 1, Some (- 1), None])
   \<and> label_for lib0 3 [JObj [(key_id, JInt 1), (key_type, JBool True)],
                        JObj [(key_id, JInt 2), (key_type, JInt 7)]] = None
   \<and> label_for lib0 2 [JObj [(key_id, JInt 1), (key_type, JBool True)],
                        JObj [(key_id, JInt 2), (key_type, JInt 7)]] = Some (- 1)
   \<and> label_for lib0 1 [JObj [(key_id, JInt 1), (key_type, JBool True)],
                        JObj [(key_id, JInt 2), (key_type, JInt 7)]] = Some 1"
proof -
  let ?items = "[JObj [(key_id, JInt 1), (key_type, JBool True)],
                 JObj [(key_id, JInt 2), (key_type, JInt 7)]]"
  let ?d = "[(key_results, JArr ?items)]"
  let ?batch = "[demo_row 1, demo_row 2, demo_row 3]"
  have h: "dict_get ?d key_results (JArr []) = JArr ?items \<and> list_all entry_ok ?items"
    by (simp add: dict_get_def entry_ok_def key_id_def key_type_def)
  have l3: "label_for lib0 3 ?items = None"
    by (simp add: dict_get_def key_id_def key_type_def)
  have l2: "label_for lib0 2 ?items = Some (- 1)"
    by (simp add: dict_get_def key_id_def key_type_def decode_type_def)
  have l1: "label_for lib0 1 ?items = Some 1"
    by (simp add: dict_get_def key_id_def key_type_def decode_type_def)
  from reconcile_batch_partial_success[of ?d ?items lib0 ?batch demo_store] h
  have "reconcile_batch lib0 (?batch, JObj ?d) demo_store
            = Inr (demo_store\<lparr>analysis :=
                     map (\<lambda>r. if row_id r \<in> row_id ` set ?batch
                              then (case label_for lib0 (row_id r) ?items of
                                      None \<Rightarrow> r
                                    | Some t \<Rightarrow> r\<lparr>number_type := Some t\<rparr>)
                              else r) (analysis demo_store)\<rparr>)"
    by blast
  moreover have "map number_type (map (\<lambda>r. if row_id r \<in> row_id ` set ?batch
                              then (case label_for lib0 (row_id r) ?items of
                                      None \<Rightarrow> r
                                    | Some t \<Rightarrow> r\<lparr>number_type := Some t\<rparr>)
                              else r) (analysis demo_store)) = [Some 1, Some (- 1), None]"
    using l1 l2 l3 by (simp add: demo_store_def demo_row_def)
  ultimately have "\<exists>st'. reconcile_batch lib0 (?batch, JObj ?d) demo_store = Inr st'
        \<and> map number_type (analysis st') = [Some 1, Some (- 1), None]"
    by simp
  with h l3 l2 l1 show ?thesis by blast
qed

section \<open>Properties of the labelling run\<close>

lemma relabel_idem: "relabel L outcome (relabel L outcome r) = relabel L outcome r"
  by (simp add: relabel_def split: option.split)

lemma fold_relabel_unique:
  assumes "\<forall>outcome \<in> set outs. row_id r \<in> row_id ` set (fst outcome) \<longrightarrow> outcome = o0"
  shows "fold (relabel L) outs r = (if o0 \<in> set outs then relabel L o0 r else r)"
  using assms
proof (induction outs arbitrary: r)
  case Nil
  show ?case by simp
next
  case (Cons outcome rest)
  show ?case
  proof (cases "outcome = o0")
    case True
    have "\<forall>outcome \<in> set rest. row_id (relabel L o0 r) \<in> row_id ` set (fst outcome)
            \<longrightarrow> outcome = o0"
      using Cons.prems by simp
    from Cons.IH[OF this] True show ?thesis by (simp add: relabel_idem)
  next
    case False
    with Cons.prems have "row_id r \<notin> row_id ` set (fst outcome)" by auto
    then have same: "relabel L outcome r = r" by (simp add: relabel_def)
    have "\<forall>outcome \<in> set rest. row_id r \<in> row_id ` set (fst outcome) \<longrightarrow> outcome = o0"
      using Cons.prems by simp
    from Cons.IH[OF this] same False show ?thesis by auto
  qed
qed

lemma fetch_rows_to_label_set:
  "set (fetch_rows_to_label st) = {r \<in> set (analysis st). number_type r = None}"
  by (auto simp: fetch_rows_to_label_def)

lemma fetch_rows_to_label_distinct:
  assumes "distinct (map row_id (analysis st))"
  shows "distinct (fetch_rows_to_label st)" and "inj_on row_id (set (fetch_rows_to_label st))"
proof -
  from assms have d: "distinct (analysis st)" and i: "inj_on row_id (set (analysis st))"
    by (simp_all add: distinct_map)
  from d show "distinct (fetch_rows_to_label st)" by (simp add: fetch_rows_to_label_def)
  have "set (fetch_rows_to_label st) \<subseteq> set (analysis st)"
    by (auto simp: fetch_rows_to_label_set)
  with i show "inj_on row_id (set (fetch_rows_to_label st))" by (rule inj_on_subset)
qed

lemma make_batches_concat:
  assumes "0 < n"
  shows "\<exists>bs. make_batches n xs = Some bs \<and> concat bs = xs"
proof -
  have "1 \<le> n" using assms by simp
  from batch_count_covers[OF this, of "length xs"] show ?thesis
    by (simp add: make_batches_eq[OF assms] concat_slices)
qed

lemma process_batch_api_task_fst [simp]: "fst (process_batch_api_task L net b) = b"
  by (simp add: process_batch_api_task_def split: sum.split)

lemma labelling_run_rows:
  assumes dist: "distinct (map row_id (analysis st))"
    and perm: "\<forall>xs. mset (sched xs) = mset xs"
    and fin: "labelling_run L net sched st = (st', None)"
  shows "\<exists>batches. make_batches BATCH_SIZE (fetch_rows_to_label st) = Some batches
           \<and> concat batches = fetch_rows_to_label st
           \<and> (\<forall>b \<in> set batches. \<forall>r \<in> set b. \<forall>r' \<in> set (analysis st').
                 row_id r' = row_id r
                   \<longrightarrow> batch_ok (snd (process_batch_api_task L net b))
                      \<and> r' = relabel L (process_batch_api_task L net b) r)"
proof (cases "fetch_rows_to_label st = []")
  case True
  then have "make_batches BATCH_SIZE (fetch_rows_to_label st) = Some []"
    by (simp add: make_batches_eq BATCH_SIZE_def)
  with True show ?thesis by simp
next
  case False
  let ?rows = "fetch_rows_to_label st"
  let ?task = "process_batch_api_task L net"
  from make_batches_concat[of BATCH_SIZE ?rows] obtain bs where
    bs: "make_batches BATCH_SIZE ?rows = Some bs" "concat bs = ?rows"
    by (auto simp: BATCH_SIZE_def)
  let ?outs = "sched (map ?task bs)"
  have set_outs: "set ?outs = ?task ` set bs"
    using perm by (metis mset_eq_setD set_map)
  from False fin bs have run: "reconcile_all L ?outs st = (st', None)"
    by (simp add: labelling_run_def)
  note closed = reconcile_all_completed[OF run]
  have dc: "distinct (concat bs)" and inj: "inj_on row_id (set (concat bs))"
    using fetch_rows_to_label_distinct[OF dist] bs(2) by simp_all
  have "\<forall>b \<in> set bs. \<forall>r \<in> set b. \<forall>r' \<in> set (analysis st').
                 row_id r' = row_id r
                   \<longrightarrow> batch_ok (snd (?task b)) \<and> r' = relabel L (?task b) r"
  proof (intro ballI impI)
    fix b r r'
    assume b: "b \<in> set bs" and r: "r \<in> set b" and r': "r' \<in> set (analysis st')"
      and id: "row_id r' = row_id r"
    from b r have rc: "r \<in> set (concat bs)" by auto
    with bs(2) have rin: "r \<in> set (analysis st)" by (simp add: fetch_rows_to_label_set)
    from closed(1) r' obtain r0 where r0: "r0 \<in> set (analysis st)"
      "r' = fold (relabel L) ?outs r0" by auto
    with id have "row_id r0 = row_id r" by simp
    moreover from dist have "inj_on row_id (set (analysis st))" by (simp add: distinct_map)
    ultimately have r0r: "r0 = r" using r0(1) rin by (auto dest: inj_onD)
    have uniq: "\<forall>outcome \<in> set ?outs. row_id r \<in> row_id ` set (fst outcome)
                  \<longrightarrow> outcome = ?task b"
    proof (intro ballI impI)
      fix outcome
      assume "outcome \<in> set ?outs" and hit: "row_id r \<in> row_id ` set (fst outcome)"
      with set_outs obtain b' where b': "b' \<in> set bs" "outcome = ?task b'" by auto
      with hit obtain r2 where r2: "r2 \<in> set b'" "row_id r2 = row_id r" by auto
      with b' have "r2 \<in> set (concat bs)" by auto
      with inj rc r2(2) have "r2 = r" by (auto dest: inj_onD)
      with r2(1) r have "set b \<inter> set b' \<noteq> {}" by auto
      with dc b b'(1) have "b = b'" by (auto simp: distinct_concat_iff)
      with b'(2) show "outcome = ?task b" by simp
    qed
    have mem: "?task b \<in> set ?outs" using set_outs b by simp
    from fold_relabel_unique[OF uniq, of L] mem r0(2) r0r
    have "r' = relabel L (?task b) r" by simp
    moreover from closed(2) mem have "batch_ok (snd (?task b))"
      by (auto simp: list_all_iff)
    ultimately show "batch_ok (snd (?task b)) \<and> r' = relabel L (?task b) r" by simp
  qed
  with bs show ?thesis by blast
qed





lemma labelling_run_as_reconcile_all:
  "\<exists>outs. fst (labelling_run L net sched st) = fst (reconcile_all L outs st)"
proof (cases "fetch_rows_to_label st = []")
  case True
  then have "fst (labelling_run L net sched st) = fst (reconcile_all L [] st)"
    by (simp add: labelling_run_def)
  then show ?thesis by blast
next
  case False
  show ?thesis
  proof (cases "make_batches BATCH_SIZE (fetch_rows_to_label st)")
    case None
    with False have "fst (labelling_run L net sched st) = fst (reconcile_all L [] st)"
      by (simp add: labelling_run_def)
    then show ?thesis by blast
  next
    case (Some bs)
    with False have "fst (labelling_run L net sched st)
       = fst (reconcile_all L (sched (map (process_batch_api_task L net) bs)) st)"
      by (simp add: labelling_run_def)
    then show ?thesis by blast
  qed
qed





lemma all_fail_task:
  assumes "\<forall>i < MODEL_RETRIES. \<exists>e. attempt_body L (net b i) = Inl e"
  shows "process_batch_api_task L net b = (b, JNull)"
proof -
  from assms have "\<forall>i \<in> set [0..<MODEL_RETRIES]. \<exists>e. attempt_body L (net b i) = Inl e"
    by simp
  from attempts_loop_all_fail[OF this, of None 0] obtain e where
    "attempts_loop L (net b) [0..<MODEL_RETRIES] None 0 = (Inl e, 0 + length [0..<MODEL_RETRIES])"
    by blast
  then show ?thesis by (simp add: process_batch_api_task_def call_gemini_json_def)
qed

text \<open>
  What the loop does with a batch whose oracle call failed on every attempt, when it
  reaches it: the worker task returns no result, and reconciling that outcome never raises
  and marks every record of the batch Failed (\<open>number_type = -1\<close>) while leaving all other
  rows as they are.  The failed batch changes neither the exception status of the loop nor
  any row outside the batch, compared with the loop without it.  Its records are Failed at
  the end only if the loop reaches the batch: no batch completed before it makes the loop
  raise.
\<close>

lemma failed_batch_when_reached:
  "(\<forall>i < MODEL_RETRIES. \<exists>e. attempt_body L (net b i) = Inl e) \<longrightarrow>
     process_batch_api_task L net b = (b, JNull)
   \<and> reconcile_batch L (process_batch_api_task L net b) st = Inr (mark_failed b st)
   \<and> (\<forall>r \<in> set (analysis (mark_failed b st)).
         row_id r \<in> row_id ` set b \<longrightarrow> number_type r = Some (- 1))
   \<and> filter (\<lambda>r. row_id r \<notin> row_id ` set b) (analysis (mark_failed b st))
       = filter (\<lambda>r. row_id r \<notin> row_id ` set b) (analysis st)
   \<and> (\<forall>pre post.
         snd (reconcile_all L (pre @ process_batch_api_task L net b # post) st)
           = snd (reconcile_all L (pre @ post) st)
         \<and> filter (\<lambda>r. row_id r \<notin> row_id ` set b)
              (analysis (fst (reconcile_all L (pre @ process_batch_api_task L net b # post) st)))
           = filter (\<lambda>r. row_id r \<notin> row_id ` set b)
              (analysis (fst (reconcile_all L (pre @ post) st)))
         \<and> (snd (reconcile_all L pre st) = None
              \<and> (\<forall>outcome \<in> set post. row_id ` set (fst outcome) \<inter> row_id ` set b = {})
             \<longrightarrow> (\<forall>r \<in> set (analysis
                      (fst (reconcile_all L (pre @ process_batch_api_task L net b # post) st))).
                    row_id r \<in> row_id ` set b \<longrightarrow> number_type r = Some (- 1))))
   \<and> (\<forall>sched st' batches.
         distinct (map row_id (analysis st)) \<and> (\<forall>xs. mset (sched xs) = mset xs)
         \<and> labelling_run L net sched st = (st', None)
         \<and> make_batches BATCH_SIZE (fetch_rows_to_label st) = Some batches \<and> b \<in> set batches
         \<longrightarrow> (\<forall>r \<in> set (analysis st').
                row_id r \<in> row_id ` set b \<longrightarrow> number_type r = Some (- 1)))"
proof (intro impI)
  assume fail: "\<forall>i < MODEL_RETRIES. \<exists>e. attempt_body L (net b i) = Inl e"
  have task: "process_batch_api_task L net b = (b, JNull)" using fail by (rule all_fail_task[of L net b])
  have step: "reconcile_batch L (process_batch_api_task L net b) st = Inr (mark_failed b st)"
    unfolding task by (simp add: reconcile_batch_def)
  have marked: "\<forall>r \<in> set (analysis (mark_failed b st)).
         row_id r \<in> row_id ` set b \<longrightarrow> number_type r = Some (- 1)"
    using mark_failed_rows by blast
  have outside: "filter (\<lambda>r. row_id r \<notin> row_id ` set b) (analysis (mark_failed b st))
       = filter (\<lambda>r. row_id r \<notin> row_id ` set b) (analysis st)"
    by (rule mark_failed_outside)
  have loop: "\<forall>pre post.
         snd (reconcile_all L (pre @ process_batch_api_task L net b # post) st)
           = snd (reconcile_all L (pre @ post) st)
         \<and> filter (\<lambda>r. row_id r \<notin> row_id ` set b)
              (analysis (fst (reconcile_all L (pre @ process_batch_api_task L net b # post) st)))
           = filter (\<lambda>r. row_id r \<notin> row_id ` set b)
              (analysis (fst (reconcile_all L (pre @ post) st)))
         \<and> (snd (reconcile_all L pre st) = None
              \<and> (\<forall>outcome \<in> set post. row_id ` set (fst outcome) \<inter> row_id ` set b = {})
             \<longrightarrow> (\<forall>r \<in> set (analysis
                      (fst (reconcile_all L (pre @ process_batch_api_task L net b # post) st))).
                    row_id r \<in> row_id ` set b \<longrightarrow> number_type r = Some (- 1)))"
    unfolding task
    using reconcile_all_skip_failed[of L _ b _ st] reconcile_all_marks_failed[of L _ st _ b]
    by blast
  have run: "\<forall>sched st' batches.
         distinct (map row_id (analysis st)) \<and> (\<forall>xs. mset (sched xs) = mset xs)
         \<and> labelling_run L net sched st = (st', None)
         \<and> make_batches BATCH_SIZE (fetch_rows_to_label st) = Some batches \<and> b \<in> set batches
         \<longrightarrow> (\<forall>r \<in> set (analysis st').
                row_id r \<in> row_id ` set b \<longrightarrow> number_type r = Some (- 1))"
  proof (intro allI impI ballI)
    fix sched st' batches r
    assume h: "distinct (map row_id (analysis st)) \<and> (\<forall>xs. mset (sched xs) = mset xs)
         \<and> labelling_run L net sched st = (st', None)
         \<and> make_batches BATCH_SIZE (fetch_rows_to_label st) = Some batches \<and> b \<in> set batches"
      and r: "r \<in> set (analysis st')" and rb: "row_id r \<in> row_id ` set b"
    from rb obtain r0 where r0: "r0 \<in> set b" "row_id r = row_id r0" by auto
    from h have "distinct (map row_id (analysis st))" "\<forall>xs. mset (sched xs) = mset xs"
      "labelling_run L net sched st = (st', None)" by simp_all
    from labelling_run_rows[OF this] h r0 r
    have "r = relabel L (process_batch_api_task L net b) r0" by auto
    with task r0 show "number_type r = Some (- 1)"
      by (simp add: relabel_def batch_label_def)
  qed
  from task step marked outside loop run
  show "process_batch_api_task L net b = (b, JNull)
   \<and> reconcile_batch L (process_batch_api_task L net b) st = Inr (mark_failed b st)
   \<and> (\<forall>r \<in> set (analysis (mark_failed b st)).
         row_id r \<in> row_id ` set b \<longrightarrow> number_type r = Some (- 1))
   \<and> filter (\<lambda>r. row_id r \<notin> row_id ` set b) (analysis (mark_failed b st))
       = filter (\<lambda>r. row_id r \<notin> row_id ` set b) (analysis st)
   \<and> (\<forall>pre post.
         snd (reconcile_all L (pre @ process_batch_api_task L net b # post) st)
           = snd (reconcile_all L (pre @ post) st)
         \<and> filter (\<lambda>r. row_id r \<notin> row_id ` set b)
              (analysis (fst (reconcile_all L (pre @ process_batch_api_task L net b # post) st)))
           = filter (\<lambda>r. row_id r \<notin> row_id ` set b)
              (analysis (fst (reconcile_all L (pre @ post) st)))
         \<and> (snd (reconcile_all L pre st) = None
              \<and> (\<forall>outcome \<in> set post. row_id ` set (fst outcome) \<inter> row_id ` set b = {})
             \<longrightarrow> (\<forall>r \<in> set (analysis
                      (fst (reconcile_all L (pre @ process_batch_api_task L net b # post) st))).
                    row_id r \<in> row_id ` set b \<longrightarrow> number_type r = Some (- 1))))
   \<and> (\<forall>sched st' batches.
         distinct (map row_id (analysis st)) \<and> (\<forall>xs. mset (sched xs) = mset xs)
         \<and> labelling_run L net sched st = (st', None)
         \<and> make_batches BATCH_SIZE (fetch_rows_to_label st) = Some batches \<and> b \<in> set batches
         \<longrightarrow> (\<forall>r \<in> set (analysis st').
                row_id r \<in> row_id ` set b \<longrightarrow> number_type r = Some (- 1)))"
    by (intro conjI)
qed

lemma demo_fetch:
  "fetch_rows_to_label demo_store = [demo_row 1, demo_row 2, demo_row 3]"
  by (simp add: fetch_rows_to_label_def demo_store_def demo_row_def)

lemma demo_batches:
  "make_batches BATCH_SIZE [demo_row 1, demo_row 2, demo_row 3]
     = Some [[demo_row 1, demo_row 2, demo_row 3]]"
  by (simp add: make_batches_def py_range_step_def BATCH_SIZE_def slice_def)

lemma demo_task:
  "process_batch_api_task lib0 (\<lambda>b i. HttpData (wrap_reply (results_reply items))) b
     = (b, results_reply items)"
  by (simp add: process_batch_api_task_def call_gemini_json_def MODEL_RETRIES_def
      results_reply_def attempt_body_wrap_reply upt_rec)

lemma demo_run:
  "labelling_run lib0
     (\<lambda>b i. HttpData (wrap_reply (results_reply [result_entry 1 1, result_entry 2 0])))
     (\<lambda>xs. xs) demo_store
   = (demo_store\<lparr>analysis := [demo_row 1\<lparr>number_type := Some 1\<rparr>,
                                demo_row 2\<lparr>number_type := Some 0\<rparr>, demo_row 3]\<rparr>, None)"
  unfolding labelling_run_def demo_fetch demo_batches Let_def
  by (simp add: demo_task)
     (simp add: reconcile_batch_def dict_get_def results_reply_def result_entry_def
        apply_item_def decode_type_def update_type_def demo_store_def demo_row_def
        key_results_def key_id_def key_type_def)


lemma fetch21: "fetch_rows_to_label demo_store21 = demo_rows21"
proof -
  have "sorted (map row_id demo_rows21)"
    by (simp add: demo_rows21_def demo_batch20_def demo_row_def)
  then have "sort_key row_id demo_rows21 = demo_rows21" by (rule sort_key_id_if_sorted)
  moreover have "filter (\<lambda>r. number_type r = None) demo_rows21 = demo_rows21"
    by (simp add: demo_rows21_def demo_batch20_def demo_row_def)
  ultimately show ?thesis by (simp add: fetch_rows_to_label_def demo_store21_def)
qed

lemma batches21:
  "make_batches BATCH_SIZE demo_rows21 = Some [demo_batch20, [demo_row 21]]"
proof -
  have l: "length demo_batch20 = 20" by (simp add: demo_batch20_def)
  have "(length demo_rows21 + 20 - 1) div 20 = 2" by (simp add: demo_rows21_def l)
  then have "make_batches 20 demo_rows21
     = Some (map (\<lambda>k. slice demo_rows21 (k * 20) (k * 20 + 20)) [0..<2])"
    by (simp add: make_batches_eq)
  moreover have "slice demo_rows21 0 20 = demo_batch20"
    by (simp add: slice_def demo_rows21_def l)
  moreover have "slice demo_rows21 20 40 = [demo_row 21]"
    by (simp add: slice_def demo_rows21_def l)
  ultimately show ?thesis by (simp add: BATCH_SIZE_def upt_rec)
qed

lemma batch20_not_last: "demo_batch20 \<noteq> [demo_row 21]"
proof
  assume "demo_batch20 = [demo_row 21]"
  then have "length demo_batch20 = length [demo_row 21]" by (rule arg_cong)
  then show False by (simp add: demo_batch20_def)
qed

lemma task21_failed:
  "process_batch_api_task lib1 demo_net21 demo_batch20 = (demo_batch20, JNull)"
  by (simp add: process_batch_api_task_def call_gemini_json_def MODEL_RETRIES_def
      demo_net21_def batch20_not_last attempt_body_def upt_rec)

lemma task21_bare_list:
  "process_batch_api_task lib1 demo_net21 [demo_row 21] = ([demo_row 21], JArr [])"
  by (simp add: process_batch_api_task_def call_gemini_json_def MODEL_RETRIES_def
      demo_net21_def attempt_body_def wrap_reply_def lib1_def upt_rec)

text \<open>
  Claim C7 fails on the code at this input.  The 21 unlabelled occurrences form two
  batches.  Both attempts of the oracle call for the first batch fail, so its task returns
  no result; the reply for the second batch is the bare list \<^verbatim>\<open>[]\<close>, and that batch
  completes first.  \<^verbatim>\<open>api_result.get\<close> raises \<^verbatim>\<open>AttributeError\<close> on the list, the handler of
  \<^verbatim>\<open>process_all\<close> ends the run, and the 20 records of the failed batch are still
  Unlabeled in the committed store.
\<close>

theorem process_all_aborts_before_failed_batch:
  "make_batches BATCH_SIZE (fetch_rows_to_label demo_store21)
     = Some [demo_batch20, [demo_row 21]]
   \<and> attempt_body lib1 (demo_net21 demo_batch20 0) = Inl RequestException
   \<and> attempt_body lib1 (demo_net21 demo_batch20 1) = Inl RequestException
   \<and> process_batch_api_task lib1 demo_net21 demo_batch20 = (demo_batch20, JNull)
   \<and> process_batch_api_task lib1 demo_net21 [demo_row 21] = ([demo_row 21], JArr [])
   \<and> process_all lib1 demo_net21 rev demo_store21 = (demo_store21, Some AttributeError)
   \<and> analysis demo_store21 = demo_batch20 @ [demo_row 21]
   \<and> list_all (\<lambda>r. number_type r = None) demo_batch20"
proof -
  have b: "make_batches BATCH_SIZE (fetch_rows_to_label demo_store21)
     = Some [demo_batch20, [demo_row 21]]"
    by (simp only: fetch21 batches21)
  have a: "attempt_body lib1 (demo_net21 demo_batch20 i) = Inl RequestException" for i
    by (simp add: demo_net21_def batch20_not_last attempt_body_def)
  have e: "extraction_step demo_store21 = demo_store21"
    by (simp add: extraction_step_def demo_store21_def demo_rows21_def)
  have ne: "fetch_rows_to_label demo_store21 \<noteq> []"
    by (simp add: fetch21 demo_rows21_def)
  have "labelling_run lib1 demo_net21 rev demo_store21
      = reconcile_all lib1
          (rev (map (process_batch_api_task lib1 demo_net21) [demo_batch20, [demo_row 21]]))
          demo_store21"
    using ne by (simp add: labelling_run_def b)
  also have "\<dots> = reconcile_all lib1 [([demo_row 21], JArr []), (demo_batch20, JNull)]
                     demo_store21"
    by (simp add: task21_failed task21_bare_list)
  also have "\<dots> = (demo_store21, Some AttributeError)"
    by (simp add: reconcile_batch_def)
  finally have run: "process_all lib1 demo_net21 rev demo_store21
      = (demo_store21, Some AttributeError)"
    by (simp add: process_all_def e)
  have s: "analysis demo_store21 = demo_batch20 @ [demo_row 21]"
    by (simp add: demo_store21_def demo_rows21_def)
  have n: "list_all (\<lambda>r. number_type r = None) demo_batch20"
    by (simp add: demo_batch20_def demo_row_def)
  from b a[of 0] a[of 1] task21_failed task21_bare_list run s n show ?thesis by (intro conjI)
qed

text \<open>
  Counterexample to claim C2 as stated: three occurrences are Unlabeled before the run
  and are put in one batch; the oracle answers for the ids 1 and 2 only; the run completes
  without an exception, and occurrence 3 is still Unlabeled after it.
\<close>

theorem process_all_missing_id_counterexample:
  "map number_type (analysis demo_store) = [None, None, None]
   \<and> make_batches BATCH_SIZE (fetch_rows_to_label (extraction_step demo_store))
       = Some [[demo_row 1, demo_row 2, demo_row 3]]
   \<and> (\<exists>st'. process_all lib0
          (\<lambda>b i. HttpData (wrap_reply (results_reply [result_entry 1 1, result_entry 2 0])))
          (\<lambda>xs. xs) demo_store = (st', None)
        \<and> map row_id (analysis st') = [1, 2, 3]
        \<and> map number_type (analysis st') = [Some 1, Some 0, None])"
proof -
  have e: "extraction_step demo_store = demo_store"
    by (simp add: extraction_step_def demo_store_def)
  have "map number_type (analysis demo_store) = [None, None, None]"
    by (simp add: demo_store_def demo_row_def)
  moreover have "make_batches BATCH_SIZE (fetch_rows_to_label (extraction_step demo_store))
       = Some [[demo_row 1, demo_row 2, demo_row 3]]"
    by (simp add: e demo_fetch demo_batches)
  moreover have "\<exists>st'. process_all lib0
          (\<lambda>b i. HttpData (wrap_reply (results_reply [result_entry 1 1, result_entry 2 0])))
          (\<lambda>xs. xs) demo_store = (st', None)
        \<and> map row_id (analysis st') = [1, 2, 3]
        \<and> map number_type (analysis st') = [Some 1, Some 0, None]"
    by (simp add: process_all_def e demo_run) (simp add: demo_row_def)
  ultimately show ?thesis by blast
qed

text \<open>
  Claim C2, amended.  Take a store with distinct row ids and a labelling run that ends
  without an exception, the completed batches being handled in any order.  The
  occurrences that were Unlabeled before the run are exactly those of the batches, and
  for each of them: after the run its \<open>number_type\<close> is \<open>-1\<close> when its batch failed as a
  whole (no oracle result, or a \<^verbatim>\<open>"results"\<close> entry that is no list); it is the label in
  \<open>{0, 1, 2, -1}\<close> decoded from the last entry with its id when its id appears in the
  result list of its batch; and it is still \<^verbatim>\<open>NULL\<close> (Unlabeled) exactly when its id
  does not appear in that result list.
\<close>

theorem labelling_run_coverage:
  assumes dist: "distinct (map row_id (analysis st))"
    and perm: "\<forall>xs. mset (sched xs) = mset xs"
    and fin: "labelling_run L net sched st = (st', None)"
  shows "\<exists>batches. make_batches BATCH_SIZE (fetch_rows_to_label st) = Some batches
     \<and> set (concat batches) = {r \<in> set (analysis st). number_type r = None}
     \<and> map row_id (analysis st') = map row_id (analysis st)
     \<and> (\<forall>b \<in> set batches. \<forall>r \<in> set b. \<forall>r' \<in> set (analysis st'). row_id r' = row_id r \<longrightarrow>
          number_type r' = batch_label L (snd (process_batch_api_task L net b)) (row_id r)
          \<and> (snd (process_batch_api_task L net b) = JNull
               \<or> (\<exists>d. snd (process_batch_api_task L net b) = JObj d))
          \<and> (snd (process_batch_api_task L net b) = JNull \<longrightarrow> number_type r' = Some (- 1))
          \<and> (\<forall>d v. snd (process_batch_api_task L net b) = JObj d
                 \<and> map_of d key_results = Some v \<and> (\<forall>items. v \<noteq> JArr items)
               \<longrightarrow> number_type r' = Some (- 1))
          \<and> (\<forall>d items. snd (process_batch_api_task L net b) = JObj d
                 \<and> dict_get d key_results (JArr []) = JArr items
               \<longrightarrow> (number_type r' = None
                      \<longleftrightarrow> (\<forall>d'. JObj d' \<in> set items
                              \<longrightarrow> id_key (dict_get d' key_id JNull) \<noteq> Some (row_id r)))
                  \<and> (number_type r' \<noteq> None
                       \<longrightarrow> number_type r' \<in> {Some 0, Some 1, Some 2, Some (- 1)})))"
proof -
  from labelling_run_rows[OF dist perm fin] obtain batches where
    bs: "make_batches BATCH_SIZE (fetch_rows_to_label st) = Some batches"
      "concat batches = fetch_rows_to_label st"
    and rows: "\<forall>b \<in> set batches. \<forall>r \<in> set b. \<forall>r' \<in> set (analysis st').
                 row_id r' = row_id r
                   \<longrightarrow> batch_ok (snd (process_batch_api_task L net b))
                      \<and> r' = relabel L (process_batch_api_task L net b) r"
    by blast
  have sets: "set (concat batches) = {r \<in> set (analysis st). number_type r = None}"
    using bs(2) by (simp add: fetch_rows_to_label_set)
  from labelling_run_as_reconcile_all[of L net sched st] fin obtain outs where
    "st' = fst (reconcile_all L outs st)" by auto
  then have ids: "map row_id (analysis st') = map row_id (analysis st)"
    by (simp add: reconcile_all_frame)
  have main: "number_type r' = batch_label L (snd (process_batch_api_task L net b)) (row_id r)
          \<and> (snd (process_batch_api_task L net b) = JNull
               \<or> (\<exists>d. snd (process_batch_api_task L net b) = JObj d))
          \<and> (snd (process_batch_api_task L net b) = JNull \<longrightarrow> number_type r' = Some (- 1))
          \<and> (\<forall>d v. snd (process_batch_api_task L net b) = JObj d
                 \<and> map_of d key_results = Some v \<and> (\<forall>items. v \<noteq> JArr items)
               \<longrightarrow> number_type r' = Some (- 1))
          \<and> (\<forall>d items. snd (process_batch_api_task L net b) = JObj d
                 \<and> dict_get d key_results (JArr []) = JArr items
               \<longrightarrow> (number_type r' = None
                      \<longleftrightarrow> (\<forall>d'. JObj d' \<in> set items
                              \<longrightarrow> id_key (dict_get d' key_id JNull) \<noteq> Some (row_id r)))
                  \<and> (number_type r' \<noteq> None
                       \<longrightarrow> number_type r' \<in> {Some 0, Some 1, Some 2, Some (- 1)}))"
    if b: "b \<in> set batches" and r: "r \<in> set b" and r': "r' \<in> set (analysis st')"
      and id: "row_id r' = row_id r" for b r r'
  proof -
    let ?res = "snd (process_batch_api_task L net b)"
    from rows b r r' id have ok: "batch_ok ?res"
      and eq: "r' = relabel L (process_batch_api_task L net b) r" by blast+
    from b r have "r \<in> set (concat batches)" by auto
    with sets have unl: "number_type r = None" by simp
    from eq r unl have nt: "number_type r' = batch_label L ?res (row_id r)"
      by (simp add: relabel_def split: option.split)
    from ok have shape: "?res = JNull \<or> (\<exists>d. ?res = JObj d)"
      by (cases ?res) (simp_all add: batch_ok_def)
    have c1: "?res = JNull \<longrightarrow> number_type r' = Some (- 1)"
      using nt by (simp add: batch_label_def)
    have c2: "\<forall>d v. ?res = JObj d \<and> map_of d key_results = Some v \<and> (\<forall>items. v \<noteq> JArr items)
               \<longrightarrow> number_type r' = Some (- 1)"
    proof (intro allI impI)
      fix d v
      assume "?res = JObj d \<and> map_of d key_results = Some v \<and> (\<forall>items. v \<noteq> JArr items)"
      with nt show "number_type r' = Some (- 1)"
        by (cases v) (simp_all add: batch_label_def dict_get_def)
    qed
    have c3: "\<forall>d items. ?res = JObj d \<and> dict_get d key_results (JArr []) = JArr items
               \<longrightarrow> (number_type r' = None
                      \<longleftrightarrow> (\<forall>d'. JObj d' \<in> set items
                              \<longrightarrow> id_key (dict_get d' key_id JNull) \<noteq> Some (row_id r)))
                  \<and> (number_type r' \<noteq> None
                       \<longrightarrow> number_type r' \<in> {Some 0, Some 1, Some 2, Some (- 1)})"
    proof (intro allI impI)
      fix d items
      assume h: "?res = JObj d \<and> dict_get d key_results (JArr []) = JArr items"
      with nt have l: "number_type r' = label_for L (row_id r) items"
        by (simp add: batch_label_def)
      show "(number_type r' = None
                      \<longleftrightarrow> (\<forall>d'. JObj d' \<in> set items
                              \<longrightarrow> id_key (dict_get d' key_id JNull) \<noteq> Some (row_id r)))
                  \<and> (number_type r' \<noteq> None
                       \<longrightarrow> number_type r' \<in> {Some 0, Some 1, Some 2, Some (- 1)})"
        unfolding l using label_for_None_iff[of L "row_id r" items]
          label_for_range[of L "row_id r" items] by auto
    qed
    from nt shape c1 c2 c3 show ?thesis by (intro conjI)
  qed
  show ?thesis
    by (rule exI[of _ batches]) (use bs(1) sets ids main in blast)
qed

theorem labelling_run_coverage_witness:
  "distinct (map row_id (analysis demo_store))
   \<and> labelling_run lib0
        (\<lambda>b i. HttpData (wrap_reply (results_reply [result_entry 1 1, result_entry 2 0])))
        (\<lambda>xs. xs) demo_store
      = (demo_store\<lparr>analysis := [demo_row 1\<lparr>number_type := Some 1\<rparr>,
                                   demo_row 2\<lparr>number_type := Some 0\<rparr>, demo_row 3]\<rparr>, None)
   \<and> (\<exists>batches. make_batches BATCH_SIZE (fetch_rows_to_label demo_store) = Some batches
         \<and> set (concat batches) = {r \<in> set (analysis demo_store). number_type r = None}
         \<and> map row_id (analysis (demo_store\<lparr>analysis := [demo_row 1\<lparr>number_type := Some 1\<rparr>,
                                   demo_row 2\<lparr>number_type := Some 0\<rparr>, demo_row 3]\<rparr>))
             = map row_id (analysis demo_store))"
proof -
  have dist: "distinct (map row_id (analysis demo_store))"
    by (simp add: demo_store_def demo_row_def)
  have perm: "\<forall>xs :: (occ_row list \<times> json) list. mset ((\<lambda>xs. xs) xs) = mset xs" by simp
  note fin = demo_run
  from labelling_run_coverage[OF dist perm fin]
  have "\<exists>batches. make_batches BATCH_SIZE (fetch_rows_to_label demo_store) = Some batches
         \<and> set (concat batches) = {r \<in> set (analysis demo_store). number_type r = None}
         \<and> map row_id (analysis (demo_store\<lparr>analysis := [demo_row 1\<lparr>number_type := Some 1\<rparr>,
                                   demo_row 2\<lparr>number_type := Some 0\<rparr>, demo_row 3]\<rparr>))
             = map row_id (analysis demo_store)"
    by blast
  with dist fin show ?thesis by blast
qed

text \<open>
  Claim C9.  On a store whose occurrence table has a non-zero row count the extraction
  step is a no-op, decided by the row count alone, and \<^verbatim>\<open>process_all\<close> is then the
  labelling run alone.  Running the extraction step twice gives the store of running it
  once, and the extraction step of a second run of the whole script changes nothing in the
  store that the first run left: no row is inserted twice.
\<close>

theorem extraction_step_idempotent:
  "(length (analysis st) \<noteq> 0
      \<longrightarrow> extraction_step st = st
        \<and> process_all L net sched st = labelling_run L net sched st)
   \<and> extraction_step (extraction_step st) = extraction_step st
   \<and> extraction_step (fst (process_all L net sched st)) = fst (process_all L net sched st)"
proof -
  have noop: "extraction_step s = s" if "length (analysis s) \<noteq> 0" for s
    using that by (simp add: extraction_step_def)
  have idem: "extraction_step (extraction_step s) = extraction_step s" for s
  proof (cases "length (analysis s) = 0")
    case False
    then show ?thesis by (simp add: noop)
  next
    case True
    then have st1: "extraction_step s = extract_and_insert_numbers s"
      by (simp add: extraction_step_def)
    show ?thesis
    proof (cases "length (analysis (extract_and_insert_numbers s)) = 0")
      case False
      with st1 show ?thesis by (simp add: noop)
    next
      case empty: True
      from extract_and_insert_numbers_rows[of s] obtain new where new:
        "analysis (extract_and_insert_numbers s) = analysis s @ new"
        "sentences (extract_and_insert_numbers s) = sentences s"
        "next_id (extract_and_insert_numbers s) = next_id s + int (length new)"
        by blast
      from empty new(1) have "new = []" by simp
      with new have "extract_and_insert_numbers s = s" by (intro store_eqI) simp_all
      with st1 show ?thesis by simp
    qed
  qed
  have again: "extraction_step (fst (process_all L net sched st)) = fst (process_all L net sched st)"
  proof -
    let ?s1 = "extraction_step st"
    let ?s2 = "fst (labelling_run L net sched ?s1)"
    from labelling_run_as_reconcile_all[of L net sched ?s1] obtain outs where
      o: "?s2 = fst (reconcile_all L outs ?s1)" by blast
    have ids: "map row_id (analysis ?s2) = map row_id (analysis ?s1)"
      and sen: "sentences ?s2 = sentences ?s1" and nxt: "next_id ?s2 = next_id ?s1"
      unfolding o by (simp_all add: reconcile_all_frame)
    from ids have len: "length (analysis ?s2) = length (analysis ?s1)"
      by (metis length_map)
    show ?thesis
    proof (cases "length (analysis ?s1) = 0")
      case False
      with len have "length (analysis ?s2) \<noteq> 0" by simp
      then show ?thesis by (simp add: process_all_def noop)
    next
      case True
      with len have "analysis ?s2 = analysis ?s1" by simp
      with sen nxt have "?s2 = ?s1" by (intro store_eqI)
      then show ?thesis by (simp add: process_all_def idem)
    qed
  qed
  from noop[of st] idem[of st] again show ?thesis by (simp add: process_all_def)
qed

lemma demo_source_extract:
  "extract_and_insert_numbers demo_source
     = demo_source\<lparr>analysis :=
         [\<lparr>row_id = 1, source_id = 1,
           sentence = [19977, 27004, 20303, 30528, 19968, 30334, 20154],
           number_text = [19977], number_start = 0, number_end = 1, number_type = None\<rparr>,
          \<lparr>row_id = 2, source_id = 1,
           sentence = [19977, 27004, 20303, 30528, 19968, 30334, 20154],
           number_text = [19968, 30334], number_start = 4, number_end = 6, number_type = None\<rparr>],
        next_id := 3\<rparr>"
  by (simp add: extract_and_insert_numbers_def insert_sentence_def insert_number_def
      not_like_di_def DI_def demo_source_def example_extract)

theorem extraction_step_idempotent_witness:
  "length (analysis (extraction_step demo_source)) = 2
   \<and> length (analysis (extraction_step (extraction_step demo_source))) = 2
   \<and> length (analysis demo_store) \<noteq> 0
   \<and> extraction_step demo_store = demo_store"
proof -
  have a: "length (analysis (extraction_step demo_source)) = 2"
    by (simp add: extraction_step_def demo_source_extract) (simp add: demo_source_def)
  have b: "length (analysis demo_store) \<noteq> 0" by (simp add: demo_store_def)
  from extraction_step_idempotent[of demo_source]
  have c: "extraction_step (extraction_step demo_source) = extraction_step demo_source"
    by blast
  from extraction_step_idempotent[of demo_store] b
  have d: "extraction_step demo_store = demo_store" by blast
  from a b c d show ?thesis by simp
qed

text \<open>
  Claim C10.  The extraction appends to the occurrence table exactly the rows of the
  numerals extracted from the stored sentences without U+7B2C, sentence by sentence;
  every new row is Unlabeled and carries the id and the text of such a sentence, so no
  new row comes from a sentence that contains U+7B2C; and the labelling run creates no
  row.
\<close>

theorem extraction_excludes_di:
  "\<exists>new. analysis (extract_and_insert_numbers st) = analysis st @ new
      \<and> sentences (extract_and_insert_numbers st) = sentences st
      \<and> map (\<lambda>r. (source_id r, sentence r, number_text r, number_start r, number_end r)) new
          = concat (map (\<lambda>s. map (\<lambda>m. (src_id s, content s, mtext m, int (mstart m), int (mend m)))
                                 (extract_chinese_numbers (content s)))
                        (filter (\<lambda>s. DI \<notin> set (content s)) (sentences st)))
      \<and> (\<forall>r \<in> set new. DI \<notin> set (sentence r) \<and> number_type r = None
            \<and> (\<exists>s \<in> set (sentences st). DI \<notin> set (content s)
                  \<and> source_id r = src_id s \<and> sentence r = content s))
      \<and> (\<forall>s \<in> set (sentences st). DI \<in> set (content s)
            \<longrightarrow> (\<forall>r \<in> set new. sentence r \<noteq> content s))
      \<and> map row_id (analysis (fst (process_all L net sched st)))
          = map row_id (analysis (extraction_step st))"
proof -
  let ?pay = "\<lambda>r. (source_id r, sentence r, number_text r, number_start r, number_end r)"
  let ?ok = "filter (\<lambda>s. DI \<notin> set (content s)) (sentences st)"
  from extract_and_insert_numbers_rows[of st] obtain new where new:
    "analysis (extract_and_insert_numbers st) = analysis st @ new"
    "sentences (extract_and_insert_numbers st) = sentences st"
    "map ?pay new
       = concat (map (\<lambda>s. map (\<lambda>m. (src_id s, content s, mtext m, int (mstart m), int (mend m)))
                              (extract_chinese_numbers (content s))) ?ok)"
    "\<forall>r \<in> set new. number_type r = None"
    unfolding not_like_di_def by blast
  have src: "\<exists>s \<in> set (sentences st). DI \<notin> set (content s)
                  \<and> source_id r = src_id s \<and> sentence r = content s"
    if r: "r \<in> set new" for r
  proof -
    from r have "?pay r \<in> set (map ?pay new)" by simp
    with new(3) have "?pay r \<in> set (concat (map (\<lambda>s. map (\<lambda>m. (src_id s, content s, mtext m,
        int (mstart m), int (mend m))) (extract_chinese_numbers (content s))) ?ok))" by simp
    then obtain s where "s \<in> set ?ok" "source_id r = src_id s" "sentence r = content s"
      by auto
    then show ?thesis by auto
  qed
  have c4: "\<forall>r \<in> set new. DI \<notin> set (sentence r) \<and> number_type r = None
            \<and> (\<exists>s \<in> set (sentences st). DI \<notin> set (content s)
                  \<and> source_id r = src_id s \<and> sentence r = content s)"
  proof
    fix r assume r: "r \<in> set new"
    from src[OF r] obtain s where "s \<in> set (sentences st)" "DI \<notin> set (content s)"
      "source_id r = src_id s" "sentence r = content s" by blast
    with new(4) r show "DI \<notin> set (sentence r) \<and> number_type r = None
            \<and> (\<exists>s \<in> set (sentences st). DI \<notin> set (content s)
                  \<and> source_id r = src_id s \<and> sentence r = content s)" by auto
  qed
  then have c5: "\<forall>s \<in> set (sentences st). DI \<in> set (content s)
            \<longrightarrow> (\<forall>r \<in> set new. sentence r \<noteq> content s)"
    by metis
  from labelling_run_as_reconcile_all[of L net sched "extraction_step st"] obtain outs where
    "fst (labelling_run L net sched (extraction_step st))
       = fst (reconcile_all L outs (extraction_step st))" by blast
  then have c6: "map row_id (analysis (fst (process_all L net sched st)))
          = map row_id (analysis (extraction_step st))"
    by (simp add: process_all_def reconcile_all_frame)
  show ?thesis
    by (rule exI[of _ new]) (intro conjI new(1) new(2) new(3) c4 c5 c6)
qed

theorem extraction_excludes_di_witness:
  "DI \<in> set (content \<lparr>src_id = 2, content = [31532, 19977, 27004]\<rparr>)
   \<and> \<lparr>src_id = 2, content = [31532, 19977, 27004]\<rparr> \<in> set (sentences demo_source)
   \<and> map sentence (analysis (extract_and_insert_numbers demo_source))
       = [[19977, 27004, 20303, 30528, 19968, 30334, 20154],
          [19977, 27004, 20303, 30528, 19968, 30334, 20154]]
   \<and> (\<exists>new. analysis (extract_and_insert_numbers demo_source) = analysis demo_source @ new
          \<and> sentences (extract_and_insert_numbers demo_source) = sentences demo_source)"
proof -
  have a: "DI \<in> set (content \<lparr>src_id = 2, content = [31532, 19977, 27004]\<rparr>)"
    by (simp add: DI_def)
  have b: "\<lparr>src_id = 2, content = [31532, 19977, 27004]\<rparr> \<in> set (sentences demo_source)"
    by (simp add: demo_source_def)
  have c: "map sentence (analysis (extract_and_insert_numbers demo_source))
       = [[19977, 27004, 20303, 30528, 19968, 30334, 20154],
          [19977, 27004, 20303, 30528, 19968, 30334, 20154]]"
    by (simp add: demo_source_extract)
  from extraction_excludes_di[of demo_source]
  have d: "\<exists>new. analysis (extract_and_insert_numbers demo_source) = analysis demo_source @ new
          \<and> sentences (extract_and_insert_numbers demo_source) = sentences demo_source"
    by blast
  from a b c d show ?thesis by blast
qed

end
